theory Spec2Isabelle
  imports Complex_Main "HOL-Library.Word"
begin

section \<open>Machine types\<close>

text \<open>
  Go's \<open>uint16\<close> and \<open>uint32\<close> are words: addition and subtraction wrap around.
  \<open>uint32(x)\<close> of a \<open>uint16\<close> value is the zero-extending \<open>ucast\<close>.
\<close>

type_synonym u16 = "16 word"
type_synonym u32 = "32 word"

text \<open>
  Go's \<open>int\<close> has 64 bits on the platforms the service is built for. Values of
  \<open>int\<close> are integers here, and \<open>wrap64\<close> gives the value that the result of an
  addition or a subtraction is stored as.
\<close>

definition wrap64 :: "int \<Rightarrow> int" where
  "wrap64 x = (x + 2 ^ 63) mod 2 ^ 64 - 2 ^ 63"

section \<open>Sequence tracker (src/internal/rtp/sequence_tracker.go, first part)\<close>

record SequenceTracker =
  lastOutgoingSeq :: u16
  lastIncomingSeq :: u16
  outgoingCount :: u32
  incomingCount :: u32
  droppedCount :: u32

definition NewSequenceTracker :: SequenceTracker where
  "NewSequenceTracker =
     \<lparr>lastOutgoingSeq = 0, lastIncomingSeq = 0, outgoingCount = 0,
      incomingCount = 0, droppedCount = 0\<rparr>"

definition TrackOutgoing :: "SequenceTracker \<Rightarrow> u16 \<Rightarrow> SequenceTracker" where
  "TrackOutgoing s seq = s\<lparr>lastOutgoingSeq := seq, outgoingCount := outgoingCount s + 1\<rparr>"

text \<open>
  \<open>TrackIncoming\<close> returns the updated tracker and the \<open>uint32\<close> it returns in Go.
  The branch that finds a gap returns from inside the \<open>if\<close>, before the assignment
  \<open>s.lastIncomingSeq = seq\<close> at the end of the function is reached.
\<close>

definition TrackIncoming :: "SequenceTracker \<Rightarrow> u16 \<Rightarrow> SequenceTracker \<times> u32" where
  "TrackIncoming s0 seq =
     (let s = s0\<lparr>incomingCount := incomingCount s0 + 1\<rparr> in
      if lastIncomingSeq s \<noteq> 0 then
        (let expectedSeq = lastIncomingSeq s + 1 in
         if seq \<noteq> expectedSeq then
           (let dropped =
                  (if seq < lastIncomingSeq s
                   then (0xFFFF - ucast (lastIncomingSeq s)) + ucast seq - 1
                   else ucast seq - ucast (lastIncomingSeq s) - 1) :: u32
            in (s\<lparr>droppedCount := droppedCount s + dropped\<rparr>, dropped))
         else (s\<lparr>lastIncomingSeq := seq\<rparr>, 0))
      else (s\<lparr>lastIncomingSeq := seq\<rparr>, 0))"

definition GetStats :: "SequenceTracker \<Rightarrow> u32 \<times> u32 \<times> u32" where
  "GetStats s = (outgoingCount s, incomingCount s, droppedCount s)"

section \<open>Time\<close>

text \<open>
  A \<open>time.Time\<close> is its reading of the monotonic clock in nanoseconds and a
  \<open>time.Duration\<close> is a number of nanoseconds. Every call of \<open>time.Now()\<close> in
  the source is an input of the model, in the order in which the source reads the
  clock; \<open>time.Since t\<close> is the reading minus \<open>t\<close>.
\<close>

type_synonym time = int
type_synonym duration = int

definition Second :: duration where
  "Second = 1000000000"

definition Millisecond :: duration where
  "Millisecond = 1000000"

text \<open>Go's integer division truncates towards zero.\<close>

definition quot :: "int \<Rightarrow> int \<Rightarrow> int" where
  "quot a b = sgn a * sgn b * (\<bar>a\<bar> div \<bar>b\<bar>)"

definition Milliseconds :: "duration \<Rightarrow> int" where
  "Milliseconds d = quot d 1000000"

text \<open>The runtime panics that the modelled code can raise.\<close>

datatype panic = DivideByZero | CloseOfClosedChannel | IndexOutOfRange | MakeSliceLenOutOfRange

section \<open>Latency tracker (package rtp, third part of src/FINAL_FIXES_SUMMARY.md)\<close>

record LatencyTracker =
  sentTimes :: "u16 \<rightharpoonup> time"

definition NewLatencyTracker :: LatencyTracker where
  "NewLatencyTracker = \<lparr>sentTimes = Map.empty\<rparr>"

text \<open>
  \<open>RecordSent\<close> stores the send time and then deletes every entry whose time is
  before the cutoff, three seconds before the clock reading \<open>now\<close>.
\<close>

definition sweep :: "(u16 \<rightharpoonup> time) \<Rightarrow> time \<Rightarrow> (u16 \<rightharpoonup> time)" where
  "sweep m cutoff =
     (\<lambda>seq. case m seq of
               None \<Rightarrow> None
             | Some sentTime \<Rightarrow> if sentTime < cutoff then None else Some sentTime)"

definition RecordSent :: "LatencyTracker \<Rightarrow> u16 \<Rightarrow> time \<Rightarrow> time \<Rightarrow> LatencyTracker" where
  "RecordSent t seq sendTime now =
     (let m = (sentTimes t)(seq \<mapsto> sendTime);
          cutoff = now - 3 * Second
      in t\<lparr>sentTimes := sweep m cutoff\<rparr>)"

text \<open>
  \<open>GetLatency\<close> looks the entry up under the read lock and again under the write
  lock; the worker calls it from one goroutine only, so both lookups read the same map.
  It returns the tracker, the latency and the \<open>found\<close> flag.
\<close>

definition GetLatency :: "LatencyTracker \<Rightarrow> u16 \<Rightarrow> time \<Rightarrow> LatencyTracker \<times> duration \<times> bool" where
  "GetLatency t seq now =
     (case sentTimes t seq of
        Some _ \<Rightarrow>
          (case sentTimes t seq of
             Some sendTime \<Rightarrow>
               (let latency = now - sendTime
                in (t\<lparr>sentTimes := (sentTimes t)(seq := None)\<rparr>, latency, True))
           | None \<Rightarrow> (t, 0, False))
      | None \<Rightarrow> (t, 0, False))"

section \<open>Packet pacer (src/internal/rtp/sequence_tracker.go, second part)\<close>

record PacketPacer =
  baseTimestamp :: u32
  baseTime :: time
  sampleRate :: u32

definition NewPacketPacer :: "u32 \<Rightarrow> PacketPacer" where
  "NewPacketPacer rate = \<lparr>baseTimestamp = 0, baseTime = 0, sampleRate = rate\<rparr>"

text \<open>
  \<open>CalculateDelay\<close> takes the media timestamp and the one clock reading it makes.
  The base is set when \<open>baseTimestamp\<close> is \<open>0\<close>, the value the constructor
  leaves there. The division by the sample rate panics in Go when the rate is zero.
\<close>

definition CalculateDelay :: "PacketPacer \<Rightarrow> u32 \<Rightarrow> time \<Rightarrow> panic + PacketPacer \<times> duration" where
  "CalculateDelay p timestamp now =
     (if baseTimestamp p = 0
      then Inr (p\<lparr>baseTimestamp := timestamp, baseTime := now\<rparr>, 0)
      else
        (let timestampDiff = timestamp - baseTimestamp p in
         if sampleRate p = 0 then Inl DivideByZero
         else
           (let expectedTime =
                  baseTime p + quot (uint timestampDiff * Second) (uint (sampleRate p))
            in if now < expectedTime then Inr (p, expectedTime - now) else Inr (p, 0))))"

section \<open>Metrics store (package metrics, second part of src/FINAL_FIXES_SUMMARY.md)\<close>

text \<open>
  The \<open>int64\<close> counters are integers: none of them can reach \<open>2^63\<close> by steps
  of at most \<open>2^32\<close>. Latency samples are \<open>float64\<close> values, here reals. The
  \<open>sync.Map\<close> of channel entries is an association list whose keys are distinct, in
  the order in which the entries were stored.
\<close>

record ChannelMetrics =
  ChannelID :: string
  StartTime :: time
  Latencies :: "real list"
  OutgoingPackets :: int
  DroppedPackets :: int
  LatePackets :: int

record Metrics =
  channelMetrics :: "(string \<times> ChannelMetrics) list"
  totalChannels :: int
  totalLatencies :: int

definition NewMetrics :: Metrics where
  "NewMetrics = \<lparr>channelMetrics = [], totalChannels = 0, totalLatencies = 0\<rparr>"

definition newChannelMetrics :: "string \<Rightarrow> time \<Rightarrow> ChannelMetrics" where
  "newChannelMetrics channelID now =
     \<lparr>ChannelID = channelID, StartTime = now, Latencies = [],
      OutgoingPackets = 0, DroppedPackets = 0, LatePackets = 0\<rparr>"

text \<open>
  \<open>LoadOrStore\<close> returns the entry stored under the key, storing the given one when
  there is none. The entry is a pointer in Go: \<open>storeEntry\<close> writes the mutated
  entry back under its key.
\<close>

definition LoadOrStore :: "(string \<times> 'v) list \<Rightarrow> string \<Rightarrow> 'v \<Rightarrow> (string \<times> 'v) list \<times> 'v" where
  "LoadOrStore m k v =
     (case map_of m k of
        Some actual \<Rightarrow> (m, actual)
      | None \<Rightarrow> (m @ [(k, v)], v))"

fun storeEntry :: "(string \<times> 'v) list \<Rightarrow> string \<Rightarrow> 'v \<Rightarrow> (string \<times> 'v) list" where
  "storeEntry [] k v = []"
| "storeEntry ((k', v') # m) k v =
     (if k' = k then (k, v) # m else (k', v') # storeEntry m k v)"

definition RecordLatency :: "Metrics \<Rightarrow> string \<Rightarrow> real \<Rightarrow> time \<Rightarrow> Metrics" where
  "RecordLatency m channelID latencyMs now =
     (let (cm, metrics) = LoadOrStore (channelMetrics m) channelID (newChannelMetrics channelID now);
          appended = Latencies metrics @ [latencyMs];
          limited = (if length appended > 10000 then drop 1000 appended else appended)
      in m\<lparr>channelMetrics := storeEntry cm channelID (metrics\<lparr>Latencies := limited\<rparr>),
           totalLatencies := totalLatencies m + 1\<rparr>)"

definition RecordDroppedPackets :: "Metrics \<Rightarrow> string \<Rightarrow> int \<Rightarrow> time \<Rightarrow> Metrics" where
  "RecordDroppedPackets m channelID count now =
     (let (cm, metrics) = LoadOrStore (channelMetrics m) channelID (newChannelMetrics channelID now)
      in m\<lparr>channelMetrics :=
             storeEntry cm channelID (metrics\<lparr>DroppedPackets := DroppedPackets metrics + count\<rparr>)\<rparr>)"

definition RecordOutgoingPacket :: "Metrics \<Rightarrow> string \<Rightarrow> time \<Rightarrow> Metrics" where
  "RecordOutgoingPacket m channelID now =
     (let (cm, metrics) = LoadOrStore (channelMetrics m) channelID (newChannelMetrics channelID now)
      in m\<lparr>channelMetrics :=
             storeEntry cm channelID (metrics\<lparr>OutgoingPackets := OutgoingPackets metrics + 1\<rparr>)\<rparr>)"

definition RecordLatePacket :: "Metrics \<Rightarrow> string \<Rightarrow> time \<Rightarrow> Metrics" where
  "RecordLatePacket m channelID now =
     (let (cm, metrics) = LoadOrStore (channelMetrics m) channelID (newChannelMetrics channelID now)
      in m\<lparr>channelMetrics :=
             storeEntry cm channelID (metrics\<lparr>LatePackets := LatePackets metrics + 1\<rparr>)\<rparr>)"

definition MarkChannelStarted :: "Metrics \<Rightarrow> string \<Rightarrow> Metrics" where
  "MarkChannelStarted m channelID = m\<lparr>totalChannels := totalChannels m + 1\<rparr>"

text \<open>
  \<open>GetGlobalStats\<close> walks the entries with \<open>Range\<close>, accumulating the number of
  entries, the samples and the three sums. The ratios are assigned inside the branch
  \<open>len(allLatencies) > 0\<close>, under \<open>totalPackets > 0\<close>; otherwise they keep the zero
  value of the struct. The quotient of the two \<open>float64\<close> conversions is the real
  quotient. The percentile, maximum and average fields, computed in the same branch
  from the sorted samples, are not part of the model.
\<close>

record GlobalStats =
  TotalChannels :: int
  ActiveChannels :: int
  TotalLatencies :: int
  LateRatio :: real
  PacketLossRatio :: real
  ReportTimestamp :: time

record rangeAcc =
  allLatencies :: "real list"
  activeChannels :: int
  totalDroppedPackets :: int
  totalLatePackets :: int
  totalPackets :: int

definition rangeStep :: "string \<times> ChannelMetrics \<Rightarrow> rangeAcc \<Rightarrow> rangeAcc" where
  "rangeStep kv acc =
     (let metrics = snd kv in
      \<lparr>allLatencies = allLatencies acc @ Latencies metrics,
       activeChannels = activeChannels acc + 1,
       totalDroppedPackets = totalDroppedPackets acc + DroppedPackets metrics,
       totalLatePackets = totalLatePackets acc + LatePackets metrics,
       totalPackets = totalPackets acc + OutgoingPackets metrics\<rparr>)"

definition rangeAll :: "(string \<times> ChannelMetrics) list \<Rightarrow> rangeAcc" where
  "rangeAll cm =
     fold rangeStep cm
       \<lparr>allLatencies = [], activeChannels = 0, totalDroppedPackets = 0,
        totalLatePackets = 0, totalPackets = 0\<rparr>"

definition GetGlobalStats :: "Metrics \<Rightarrow> time \<Rightarrow> GlobalStats" where
  "GetGlobalStats m now =
     (let acc = rangeAll (channelMetrics m);
          stats = \<lparr>TotalChannels = totalChannels m, ActiveChannels = activeChannels acc,
                   TotalLatencies = totalLatencies m, LateRatio = 0, PacketLossRatio = 0,
                   ReportTimestamp = now\<rparr>
      in if length (allLatencies acc) > 0 then
           (if totalPackets acc > 0 then
              stats\<lparr>LateRatio := real_of_int (totalLatePackets acc) / real_of_int (totalPackets acc),
                    PacketLossRatio :=
                      real_of_int (totalDroppedPackets acc) / real_of_int (totalPackets acc)\<rparr>
            else stats)
         else stats)"

section \<open>Worker (src/internal/rtp/sequence_tracker.go, second part)\<close>

text \<open>
  An \<open>RtpPacket\<close> is what \<open>rtp.Packet.Unmarshal\<close> extracts from the datagram.
  The \<open>Data\<close> of a queued \<open>Packet\<close> is the result of that call on its bytes,
  \<open>None\<close> where it returns an error. Logging, the pacing sleep and the socket writes
  do not touch the worker's fields and are left out. The metrics store is shared by all
  workers, so the handlers take it and return it beside the worker.
\<close>

record RtpPacket =
  SequenceNumber :: u16
  Timestamp :: u32

record Packet =
  Data :: "RtpPacket option"
  IsFromAsterisk :: bool
  ReceiveTime :: time

record Worker =
  workerChannelID :: string
  bindIP :: string
  workerRtpPort :: int
  echoHost :: string
  echoPort :: int
  t0 :: time
  asteriskIP :: string
  latencyTracker :: LatencyTracker
  sequenceTracker :: SequenceTracker
  pacer :: PacketPacer
  workerBaseTimestamp :: u32
  workerBaseTime :: time
  stopChanClosed :: bool

definition NewWorker :: "string \<Rightarrow> string \<Rightarrow> int \<Rightarrow> string \<Rightarrow> int \<Rightarrow> time \<Rightarrow> string \<Rightarrow> Worker" where
  "NewWorker cid bip port ehost eport t ip =
     \<lparr>workerChannelID = cid, bindIP = bip, workerRtpPort = port, echoHost = ehost, echoPort = eport,
      t0 = t, asteriskIP = ip, latencyTracker = NewLatencyTracker,
      sequenceTracker = NewSequenceTracker, pacer = NewPacketPacer 8000,
      workerBaseTimestamp = 0, workerBaseTime = 0, stopChanClosed = False\<rparr>"

text \<open>
  \<open>checkLatePacket\<close> takes the receive time its caller read and the clock reading it
  makes itself when it sets the base.
\<close>

definition checkLatePacket :: "Worker \<Rightarrow> RtpPacket \<Rightarrow> time \<Rightarrow> time \<Rightarrow> Worker \<times> bool" where
  "checkLatePacket w packet receiveTime now =
     (if workerBaseTimestamp w = 0
      then (w\<lparr>workerBaseTimestamp := Timestamp packet, workerBaseTime := now\<rparr>, False)
      else
        (let timestampDiff = uint (Timestamp packet - workerBaseTimestamp w);
             expectedTime = workerBaseTime w + quot (timestampDiff * Second) 8000;
             deadline = expectedTime + 3 * Millisecond
         in (w, deadline < receiveTime)))"

text \<open>
  A handler reads the clock several times. Its parameter \<open>clock\<close> gives these
  readings: \<open>clock k\<close> is what the \<open>k\<close>-th call of \<open>time.Now()\<close> made during
  the handler returns, counting from \<open>0\<close> in the order of the source text.

  The readings of \<open>handleOutgoingPacket\<close>: \<open>0\<close> for the worker's base, \<open>1\<close> for
  the send time, \<open>2\<close> inside \<open>RecordSent\<close>, \<open>3\<close> inside \<open>RecordOutgoingPacket\<close>,
  \<open>4\<close> inside \<open>CalculateDelay\<close>.
\<close>

definition handleOutgoingPacket ::
  "Worker \<Rightarrow> Metrics \<Rightarrow> Packet \<Rightarrow> (nat \<Rightarrow> time) \<Rightarrow> panic + Worker \<times> Metrics" where
  "handleOutgoingPacket w m packet clock =
     (case Data packet of
        None \<Rightarrow> Inr (w, m)
      | Some rtpPacket \<Rightarrow>
          (let w1 = (if workerBaseTimestamp w = 0
                     then w\<lparr>workerBaseTimestamp := Timestamp rtpPacket, workerBaseTime := clock 0\<rparr>
                     else w);
               w2 = w1\<lparr>latencyTracker :=
                        RecordSent (latencyTracker w1) (SequenceNumber rtpPacket) (clock 1) (clock 2)\<rparr>;
               w3 = w2\<lparr>sequenceTracker :=
                        TrackOutgoing (sequenceTracker w2) (SequenceNumber rtpPacket)\<rparr>;
               m1 = RecordOutgoingPacket m (workerChannelID w) (clock 3)
           in case CalculateDelay (pacer w3) (Timestamp rtpPacket) (clock 4) of
                Inl p \<Rightarrow> Inl p
              | Inr (pc, delay) \<Rightarrow> Inr (w3\<lparr>pacer := pc\<rparr>, m1)))"

text \<open>
  The readings of \<open>handleIncomingPacket\<close>: \<open>0\<close> inside \<open>GetLatency\<close> (for
  \<open>time.Since\<close>), \<open>1\<close> inside \<open>RecordLatency\<close>, \<open>2\<close> inside
  \<open>RecordDroppedPackets\<close>, \<open>3\<close> the receive time handed to \<open>checkLatePacket\<close>,
  \<open>4\<close> inside \<open>checkLatePacket\<close>, \<open>5\<close> inside \<open>RecordLatePacket\<close>.
\<close>

definition handleIncomingPacket ::
  "Worker \<Rightarrow> Metrics \<Rightarrow> Packet \<Rightarrow> (nat \<Rightarrow> time) \<Rightarrow> Worker \<times> Metrics" where
  "handleIncomingPacket w m packet clock =
     (case Data packet of
        None \<Rightarrow> (w, m)
      | Some rtpPacket \<Rightarrow>
          (case GetLatency (latencyTracker w) (SequenceNumber rtpPacket) (clock 0) of
             (lt, latency, found) \<Rightarrow>
               (let w1 = w\<lparr>latencyTracker := lt\<rparr> in
                if found then
                  (let m1 = RecordLatency m (workerChannelID w)
                              (real_of_int (Milliseconds latency)) (clock 1);
                       (st, dropped) = TrackIncoming (sequenceTracker w1) (SequenceNumber rtpPacket);
                       w2 = w1\<lparr>sequenceTracker := st\<rparr>;
                       m2 = (if dropped > 0
                             then RecordDroppedPackets m1 (workerChannelID w) (uint dropped) (clock 2)
                             else m1);
                       (w3, isLate) = checkLatePacket w2 rtpPacket (clock 3) (clock 4);
                       m3 = (if isLate then RecordLatePacket m2 (workerChannelID w) (clock 5) else m2)
                   in (w3, m3))
                else (w1, m))))"

text \<open>
  \<open>packetProcessor\<close> takes the packets off the queue in order, each with the clock
  readings of its handling, and hands those from the engine to
  \<open>handleOutgoingPacket\<close> and the others to \<open>handleIncomingPacket\<close>.
\<close>

fun packetProcessor ::
  "Worker \<Rightarrow> Metrics \<Rightarrow> (Packet \<times> (nat \<Rightarrow> time)) list \<Rightarrow> panic + Worker \<times> Metrics" where
  "packetProcessor w m [] = Inr (w, m)"
| "packetProcessor w m ((packet, clock) # rest) =
     (if IsFromAsterisk packet then
        (case handleOutgoingPacket w m packet clock of
           Inl p \<Rightarrow> Inl p
         | Inr (w', m') \<Rightarrow> packetProcessor w' m' rest)
      else
        (case handleIncomingPacket w m packet clock of
           (w', m') \<Rightarrow> packetProcessor w' m' rest))"

text \<open>
  The two media-clock bases of a channel: the worker's, used by \<open>checkLatePacket\<close>,
  and the pacer's, each a base timestamp with its base instant.
\<close>

definition bases :: "Worker \<Rightarrow> (u32 \<times> time) \<times> (u32 \<times> time)" where
  "bases w =
     ((workerBaseTimestamp w, workerBaseTime w),
      (baseTimestamp (pacer w), baseTime (pacer w)))"

definition basesAfter ::
  "Worker \<Rightarrow> Metrics \<Rightarrow> (Packet \<times> (nat \<Rightarrow> time)) list
     \<Rightarrow> panic + (u32 \<times> time) \<times> (u32 \<times> time)" where
  "basesAfter w m queue =
     (case packetProcessor w m queue of
        Inl p \<Rightarrow> Inl p
      | Inr (w', m') \<Rightarrow> Inr (bases w'))"

text \<open>
  \<open>Stop\<close> closes the stop channel and waits for the two goroutines, which return
  once they see it closed. Closing a channel that is already closed panics in Go.
\<close>

definition Stop :: "Worker \<Rightarrow> panic + Worker" where
  "Stop w =
     (if stopChanClosed w then Inl CloseOfClosedChannel
      else Inr (w\<lparr>stopChanClosed := True\<rparr>))"

section \<open>Port manager (src/unnamed/part_014)\<close>

record PortManager =
  minPort :: int
  maxPort :: int
  ports :: "bool list"

datatype PortError = ErrNoPortsAvailable

text \<open>
  \<open>make\<close> panics when the length it is given is negative or, for a slice of
  \<open>bool\<close>, above \<open>maxAlloc\<close>, the largest allocation of the runtime: \<open>2 ^ 48\<close>
  bytes on 64-bit Linux. Below that, an allocation that the machine cannot satisfy ends
  the program; this is outside the model.
\<close>

definition maxAlloc :: int where
  "maxAlloc = 2 ^ 48"

definition NewPortManager :: "int \<Rightarrow> int \<Rightarrow> panic + PortManager" where
  "NewPortManager mn mx =
     (let size = wrap64 (wrap64 (mx - mn) + 1) in
      if size < 0 \<or> maxAlloc < size then Inl MakeSliceLenOutOfRange
      else Inr \<lparr>minPort = mn, maxPort = mx, ports = replicate (nat size) False\<rparr>)"

text \<open>
  The loop of \<open>GetPort\<close> over the port numbers; an index outside the slice panics.
  The result is the manager, the port and the error, as Go returns them.
\<close>

function scanPorts :: "PortManager \<Rightarrow> int \<Rightarrow> panic + PortManager \<times> int \<times> PortError option" where
  "scanPorts pm port =
     (if port \<le> maxPort pm then
        (let idx = wrap64 (port - minPort pm) in
         if idx < 0 \<or> int (length (ports pm)) \<le> idx then Inl IndexOutOfRange
         else if \<not> ports pm ! nat idx
         then Inr (pm\<lparr>ports := (ports pm)[nat idx := True]\<rparr>, port, None)
         else scanPorts pm (wrap64 (port + 1)))
      else Inr (pm, 0, Some ErrNoPortsAvailable))"
  by pat_completeness auto
termination
proof (relation "measure (\<lambda>(pm, port). let idx = wrap64 (port - minPort pm)
                                         in if idx < 0 then 0 else nat (2 ^ 63 - idx))")
  show "wf (measure (\<lambda>(pm, port). let idx = wrap64 (port - minPort pm)
                                     in if idx < 0 then 0 else nat (2 ^ 63 - idx)))"
    by simp
next
  fix pm :: PortManager and port idx :: int
  assume a: "port \<le> maxPort pm" "idx = wrap64 (port - minPort pm)"
    "\<not> (idx < 0 \<or> int (length (ports pm)) \<le> idx)"
  have below: "idx < 2 ^ 63"
    using a(2) by (simp add: wrap64_def)
  have signed: "wrap64 x = signed_take_bit 63 x" for x
    by (simp add: wrap64_def signed_take_bit_eq_take_bit_shift take_bit_eq_mod)
  have "signed_take_bit 63 (signed_take_bit 63 (port + 1) - minPort pm) =
          signed_take_bit 63 (port + 1 - minPort pm)"
    by (metis signed_take_bit_diff signed_take_bit_signed_take_bit min.idem)
  moreover have "signed_take_bit 63 (signed_take_bit 63 (port - minPort pm) + 1) =
          signed_take_bit 63 (port - minPort pm + 1)"
    by (metis signed_take_bit_add signed_take_bit_signed_take_bit min.idem)
  ultimately have following: "wrap64 (wrap64 (port + 1) - minPort pm) = wrap64 (idx + 1)"
    using a(2) by (simp add: signed algebra_simps)
  show "((pm, wrap64 (port + 1)), (pm, port)) \<in>
          measure (\<lambda>(pm, port). let idx = wrap64 (port - minPort pm)
                                 in if idx < 0 then 0 else nat (2 ^ 63 - idx))"
  proof (cases "idx + 1 < 2 ^ 63")
    case True
    then have "wrap64 (idx + 1) = idx + 1" using a(3) by (simp add: wrap64_def)
    then show ?thesis using following a(2,3) below by (simp add: Let_def)
  next
    case False
    then have "idx = 2 ^ 63 - 1" using below by simp
    then have "wrap64 (idx + 1) = - (2 ^ 63)" by (simp add: wrap64_def)
    then show ?thesis using following a(2,3) below by (simp add: Let_def)
  qed
qed

definition GetPort :: "PortManager \<Rightarrow> panic + PortManager \<times> int \<times> PortError option" where
  "GetPort pm = scanPorts pm (minPort pm)"

definition ReleasePort :: "PortManager \<Rightarrow> int \<Rightarrow> panic + PortManager" where
  "ReleasePort pm port =
     (if minPort pm \<le> port \<and> port \<le> maxPort pm then
        (let idx = wrap64 (port - minPort pm) in
         if idx < 0 \<or> int (length (ports pm)) \<le> idx then Inl IndexOutOfRange
         else Inr (pm\<lparr>ports := (ports pm)[nat idx := False]\<rparr>))
      else Inr pm)"

section \<open>Control client (src/unnamed/part_013)\<close>

text \<open>
  The engine is outside the program. A request of the client is a \<open>ClientCall\<close>;
  the engine's answer is a \<open>Reply\<close>: \<open>Failure msg\<close> where the client method
  returns an error with that message, \<open>Success v\<close> where it returns no error, with
  the identifier it returns (the bridge's or the channel's, empty for the others).
  \<open>CreateExternalMedia\<close> carries the application name, the host and the port of
  \<open>external_host\<close> and the channel identifier asked for; the other parameters of
  the request are constants. \<open>AddChannelToBridge\<close> carries the bridge and the
  channel. An \<open>Effect\<close> is something the service does to the outside: a request to
  the engine, the start of a worker or a worker's \<open>Stop\<close> that has returned, each
  with the channel and the port of the worker. An \<open>Engine\<close> gives the answer to a request from everything the
  service has done to the outside so far, so the model is deterministic once the engine
  is fixed, and a statement for every engine covers every behaviour of the real one.
\<close>

datatype ClientCall =
    AnswerChannel string
  | CreateBridge
  | CreateExternalMedia string string int string
  | AddChannelToBridge string string
  | HangupChannel string
  | DeleteBridge string
  | GetChannel string

datatype Reply = Failure string | Success string

datatype Effect =
    Request ClientCall
  | WorkerStarted string int
  | WorkerStopped string int

type_synonym Engine = "Effect list \<Rightarrow> ClientCall \<Rightarrow> Reply"

text \<open>\<open>strings.Contains\<close> and \<open>strconv.Atoi\<close> of the Go library.\<close>

fun Contains :: "string \<Rightarrow> string \<Rightarrow> bool" where
  "Contains [] substr = (substr = [])"
| "Contains (c # cs) substr =
     (take (length substr) (c # cs) = substr \<or> Contains cs substr)"

definition digitOf :: "char \<Rightarrow> int option" where
  "digitOf c =
     (let n = (of_char c :: nat)
      in if 48 \<le> n \<and> n \<le> 57 then Some (int n - 48) else None)"

fun digitsValue :: "string \<Rightarrow> int \<Rightarrow> int option" where
  "digitsValue [] acc = Some acc"
| "digitsValue (c # cs) acc =
     (case digitOf c of None \<Rightarrow> None | Some d \<Rightarrow> digitsValue cs (10 * acc + d))"

definition Atoi :: "string \<Rightarrow> int option" where
  "Atoi s =
     (let (neg, ds) =
            (case s of
               [] \<Rightarrow> (False, s)
             | c # cs \<Rightarrow>
                 if c = CHR ''-'' then (True, cs)
                 else if c = CHR ''+'' then (False, cs)
                 else (False, s))
      in if ds = [] then None
         else
           (case digitsValue ds 0 of
              None \<Rightarrow> None
            | Some v \<Rightarrow>
                (let r = (if neg then - v else v)
                 in if - (2 ^ 63) \<le> r \<and> r < 2 ^ 63 then Some r else None)))"

section \<open>Lifecycle manager (src/cmd/ari-service/main.go)\<close>

record Config =
  AppName :: string
  BindIP :: string
  EchoHost :: string
  EchoPort :: string

text \<open>
  The \<open>cleanup\<close> closure of a handler captures the worker, the port and the two
  identifiers that are also the handler's fields; it is the function \<open>cleanup\<close>
  below, applied to the handler, and it is never \<open>nil\<close>. The handler holds its
  worker as \<open>NewWorker\<close> made it: of the worker's fields the lifecycle manager
  depends on the stop channel only, which nothing but \<open>Stop\<close> changes.
\<close>

record ChannelHandler =
  handlerChannelID :: string
  externalMediaID :: string
  bridgeID :: string
  handlerRtpPort :: int
  worker :: Worker
  startTime :: time

record ARIService =
  config :: Config
  portManager :: PortManager
  channels :: "(string \<times> ChannelHandler) list"
  metrics :: Metrics
  effects :: "Effect list"

text \<open>
  The errors that the service's functions build with \<open>fmt.Errorf\<close>, one constructor
  for each format string, carrying the values formatted into it.
\<close>

datatype ServiceError =
    FailedToAnswer string string
  | FailedToAnswerAfterRetries string nat "string option"
  | FailedToGetRTPPort PortError
  | InvalidEchoPort
  | FailedToCreateBridge string
  | FailedToCreateExternalMedia string
  | FailedToAddChannelToBridge string
  | FailedToAddExternalMediaToBridge string

datatype Event =
    StasisStart "string option option"
  | StasisEnd "string option option"
  | OtherEvent

text \<open>
  The channel of an event is \<open>None\<close> when the event has no channel object,
  \<open>Some None\<close> when the object has no string \<open>id\<close>, and \<open>Some (Some id)\<close>
  otherwise.
\<close>

definition request :: "Engine \<Rightarrow> ARIService \<Rightarrow> ClientCall \<Rightarrow> ARIService \<times> Reply" where
  "request eng s call = (s\<lparr>effects := effects s @ [Request call]\<rparr>, eng (effects s) call)"

text \<open>The operations of \<open>sync.Map\<close> that the service uses on the active map.\<close>

definition Store :: "(string \<times> 'v) list \<Rightarrow> string \<Rightarrow> 'v \<Rightarrow> (string \<times> 'v) list" where
  "Store m k v = (if map_of m k = None then m @ [(k, v)] else storeEntry m k v)"

definition LoadAndDelete :: "(string \<times> 'v) list \<Rightarrow> string \<Rightarrow> (string \<times> 'v) list \<times> 'v option" where
  "LoadAndDelete m k = (filter (\<lambda>kv. fst kv \<noteq> k) m, map_of m k)"

text \<open>
  The loop of \<open>answerChannelWithRetry\<close>: the fifth argument is the number of attempts
  left, the last one the error of the latest attempt.
\<close>

fun answerLoop ::
  "Engine \<Rightarrow> ARIService \<Rightarrow> string \<Rightarrow> nat \<Rightarrow> nat \<Rightarrow> string option \<Rightarrow> ARIService \<times> ServiceError option" where
  "answerLoop eng s channelID maxRetries 0 lastErr =
     (s, Some (FailedToAnswerAfterRetries channelID maxRetries lastErr))"
| "answerLoop eng s channelID maxRetries (Suc n) lastErr =
     (case request eng s (AnswerChannel channelID) of
        (s', Success _) \<Rightarrow> (s', None)
      | (s', Failure err) \<Rightarrow>
          if Contains err ''Channel not found''
          then answerLoop eng s' channelID maxRetries n (Some err)
          else (s', Some (FailedToAnswer channelID err)))"

definition answerChannelWithRetry ::
  "Engine \<Rightarrow> ARIService \<Rightarrow> string \<Rightarrow> nat \<Rightarrow> ARIService \<times> ServiceError option" where
  "answerChannelWithRetry eng s channelID maxRetries =
     answerLoop eng s channelID maxRetries maxRetries None"

text \<open>
  \<open>releaseAndFail\<close> is the pair of statements that every failure branch of
  \<open>createChannel\<close> after the allocation consists of:
  \<open>s.portManager.ReleasePort(rtpPort); return fmt.Errorf(...)\<close>.
\<close>

definition releaseAndFail ::
  "ARIService \<Rightarrow> int \<Rightarrow> ServiceError \<Rightarrow> panic + ARIService \<times> ServiceError option" where
  "releaseAndFail s rtpPort err =
     (case ReleasePort (portManager s) rtpPort of
        Inl p \<Rightarrow> Inl p
      | Inr pm \<Rightarrow> Inr (s\<lparr>portManager := pm\<rparr>, Some err))"

text \<open>
  \<open>createChannel\<close> takes the clock readings for \<open>t0\<close> and for the handler's
  \<open>startTime\<close>. \<open>go worker.Start()\<close> is the effect \<open>WorkerStarted\<close>.
\<close>

definition createChannel ::
  "Engine \<Rightarrow> ARIService \<Rightarrow> string \<Rightarrow> time \<Rightarrow> time \<Rightarrow> panic + ARIService \<times> ServiceError option" where
  "createChannel eng s channelID nowT0 nowStart =
     (case GetPort (portManager s) of
        Inl p \<Rightarrow> Inl p
      | Inr (pm, rtpPort, Some err) \<Rightarrow> Inr (s\<lparr>portManager := pm\<rparr>, Some (FailedToGetRTPPort err))
      | Inr (pm, rtpPort, None) \<Rightarrow>
          (let s1 = s\<lparr>portManager := pm\<rparr> in
           case Atoi (EchoPort (config s1)) of
             None \<Rightarrow> releaseAndFail s1 rtpPort InvalidEchoPort
           | Some echoPortNum \<Rightarrow>
               (case request eng s1 CreateBridge of
                  (s2, Failure err) \<Rightarrow> releaseAndFail s2 rtpPort (FailedToCreateBridge err)
                | (s2, Success bridge) \<Rightarrow>
                    (case request eng s2
                            (CreateExternalMedia (AppName (config s2)) (BindIP (config s2)) rtpPort
                               (''external-media-'' @ channelID)) of
                       (s3, Failure err) \<Rightarrow>
                         releaseAndFail s3 rtpPort (FailedToCreateExternalMedia err)
                     | (s3, Success externalMedia) \<Rightarrow>
                         (case request eng s3 (AddChannelToBridge bridge channelID) of
                            (s4, Failure err) \<Rightarrow>
                              releaseAndFail s4 rtpPort (FailedToAddChannelToBridge err)
                          | (s4, Success _) \<Rightarrow>
                              (case request eng s4 (AddChannelToBridge bridge externalMedia) of
                                 (s5, Failure err) \<Rightarrow>
                                   releaseAndFail s5 rtpPort (FailedToAddExternalMediaToBridge err)
                               | (s5, Success _) \<Rightarrow>
                                   (let w = NewWorker channelID (BindIP (config s5)) rtpPort
                                              (EchoHost (config s5)) echoPortNum nowT0
                                              (BindIP (config s5));
                                        s6 = s5\<lparr>effects :=
                                                  effects s5 @ [WorkerStarted channelID rtpPort]\<rparr>;
                                        handler =
                                          \<lparr>handlerChannelID = channelID,
                                           externalMediaID = externalMedia, bridgeID = bridge,
                                           handlerRtpPort = rtpPort, worker = w,
                                           startTime = nowStart\<rparr>
                                    in Inr (s6\<lparr>channels := Store (channels s6) channelID handler,
                                                metrics := MarkChannelStarted (metrics s6) channelID\<rparr>,
                                            None))))))))"

definition handleStasisStart ::
  "Engine \<Rightarrow> ARIService \<Rightarrow> string option option \<Rightarrow> time \<Rightarrow> time \<Rightarrow> panic + ARIService" where
  "handleStasisStart eng s channel nowT0 nowStart =
     (case channel of
        None \<Rightarrow> Inr s
      | Some None \<Rightarrow> Inr s
      | Some (Some channelID) \<Rightarrow>
          (case answerChannelWithRetry eng s channelID 3 of
             (s1, Some err) \<Rightarrow> Inr s1
           | (s1, None) \<Rightarrow>
               (case createChannel eng s1 channelID nowT0 nowStart of
                  Inl p \<Rightarrow> Inl p
                | Inr (s2, _) \<Rightarrow> Inr s2)))"

definition cleanup :: "Engine \<Rightarrow> ARIService \<Rightarrow> ChannelHandler \<Rightarrow> panic + ARIService" where
  "cleanup eng s h =
     (case Stop (worker h) of
        Inl p \<Rightarrow> Inl p
      | Inr w \<Rightarrow>
          (let s1 = s\<lparr>effects := effects s @ [WorkerStopped (workerChannelID w) (workerRtpPort w)]\<rparr> in
           case ReleasePort (portManager s1) (handlerRtpPort h) of
             Inl p \<Rightarrow> Inl p
           | Inr pm \<Rightarrow>
               (let s2 = s1\<lparr>portManager := pm\<rparr>;
                    s3 = (if externalMediaID h \<noteq> []
                          then fst (request eng s2 (HangupChannel (externalMediaID h)))
                          else s2);
                    s4 = (if bridgeID h \<noteq> []
                          then fst (request eng s3 (DeleteBridge (bridgeID h)))
                          else s3)
                in Inr s4)))"

definition cleanupChannel :: "Engine \<Rightarrow> ARIService \<Rightarrow> string \<Rightarrow> panic + ARIService" where
  "cleanupChannel eng s channelID =
     (case LoadAndDelete (channels s) channelID of
        (m, None) \<Rightarrow> Inr s
      | (m, Some handler) \<Rightarrow> cleanup eng (s\<lparr>channels := m\<rparr>) handler)"

definition handleStasisEnd :: "Engine \<Rightarrow> ARIService \<Rightarrow> string option option \<Rightarrow> panic + ARIService" where
  "handleStasisEnd eng s channel =
     (case channel of
        None \<Rightarrow> Inr s
      | Some None \<Rightarrow> Inr s
      | Some (Some channelID) \<Rightarrow> cleanupChannel eng s channelID)"

definition handleWebSocketMessage ::
  "Engine \<Rightarrow> ARIService \<Rightarrow> Event \<Rightarrow> time \<Rightarrow> time \<Rightarrow> panic + ARIService" where
  "handleWebSocketMessage eng s event nowT0 nowStart =
     (case event of
        StasisStart channel \<Rightarrow> handleStasisStart eng s channel nowT0 nowStart
      | StasisEnd channel \<Rightarrow> handleStasisEnd eng s channel
      | OtherEvent \<Rightarrow> Inr s)"

text \<open>
  The zombie scrubber visits the keys of the active map with \<open>Range\<close>; the callback
  deletes no key but the one it is visiting.
\<close>

definition isNotFound :: "string \<Rightarrow> bool" where
  "isNotFound errStr =
     (Contains errStr ''404'' \<or> Contains errStr ''not found''
      \<or> Contains errStr ''Channel not found'')"

fun scrub :: "Engine \<Rightarrow> string list \<Rightarrow> ARIService \<Rightarrow> panic + ARIService" where
  "scrub eng [] s = Inr s"
| "scrub eng (channelID # rest) s =
     (case request eng s (GetChannel channelID) of
        (s1, Success _) \<Rightarrow> scrub eng rest s1
      | (s1, Failure errStr) \<Rightarrow>
          if isNotFound errStr then
            (case cleanupChannel eng s1 channelID of
               Inl p \<Rightarrow> Inl p
             | Inr s2 \<Rightarrow> scrub eng rest s2)
          else scrub eng rest s1)"


text \<open>
  The event loop hands the events to \<open>handleWebSocketMessage\<close> in the order of their
  arrival, each with the clock readings of its handling.
\<close>

fun processWebSocketMessages ::
  "Engine \<Rightarrow> ARIService \<Rightarrow> (Event \<times> time \<times> time) list \<Rightarrow> panic + ARIService" where
  "processWebSocketMessages eng s [] = Inr s"
| "processWebSocketMessages eng s ((event, nowT0, nowStart) # rest) =
     (case handleWebSocketMessage eng s event nowT0 nowStart of
        Inl p \<Rightarrow> Inl p
      | Inr s' \<Rightarrow> processWebSocketMessages eng s' rest)"

section \<open>The handlers and the scrubber in concurrent goroutines\<close>

text \<open>
  The event loop, which calls the begin and the end handler, and the zombie scrubber
  run in different goroutines, and what they share is the active map, the port pool and
  the engine. A \<open>Task\<close> is a call in progress:
  \<^item> \<open>EndHandler channel\<close>: a call of \<open>handleStasisEnd\<close> for an event with that
    channel, before its first step;
  \<^item> \<open>BeginHandler channel nowT0 nowStart\<close>: a call of \<open>handleStasisStart\<close>, with
    the clock readings it will take;
  \<^item> \<open>Scrubber keys\<close>: a call of \<open>cleanupZombieChannels\<close>, with the keys that
    \<open>Range\<close> has still to visit;
  \<^item> \<open>Pending channelID keys\<close>: a call of \<open>cleanupChannel\<close> before its
    \<open>LoadAndDelete\<close>, made by a caller that has these keys still to visit after it
    (none, for the end handler);
  \<^item> \<open>Holding handler keys\<close>: that call after \<open>LoadAndDelete\<close> has given it the
    handler, before it calls the handler's \<open>cleanup\<close>;
  \<^item> \<open>Finished\<close>: a call that has returned.

  \<open>taskStep\<close> is one step of a task: the parsing of the end event, the request
  \<open>GetChannel\<close> of the scrubber and its test of the answer, the atomic
  \<open>LoadAndDelete\<close> on the active map, the call of the handler's \<open>cleanup\<close>. The
  call of \<open>cleanup\<close> and the whole begin handler are one step each: \<open>cleanup\<close>
  does not touch the active map, and the begin handler touches it in its last action
  only, the \<open>Store\<close>. \<open>Range\<close> visits no key twice and may or may not visit a key
  that is stored or deleted while it runs, so the keys of a \<open>Scrubber\<close> are left
  open; for a call that no other goroutine interleaves with they are the keys of the
  map. A schedule is the order in which the tasks take their steps.
\<close>

datatype Task =
    EndHandler "string option option"
  | BeginHandler "string option option" time time
  | Scrubber "string list"
  | Pending string "string list"
  | Holding ChannelHandler "string list"
  | Finished

fun taskStep :: "Engine \<Rightarrow> ARIService \<Rightarrow> Task \<Rightarrow> panic + ARIService \<times> Task" where
  "taskStep eng s (EndHandler None) = Inr (s, Finished)"
| "taskStep eng s (EndHandler (Some None)) = Inr (s, Finished)"
| "taskStep eng s (EndHandler (Some (Some channelID))) = Inr (s, Pending channelID [])"
| "taskStep eng s (BeginHandler channel nowT0 nowStart) =
     (case handleStasisStart eng s channel nowT0 nowStart of
        Inl p \<Rightarrow> Inl p
      | Inr s' \<Rightarrow> Inr (s', Finished))"
| "taskStep eng s (Scrubber []) = Inr (s, Finished)"
| "taskStep eng s (Scrubber (channelID # rest)) =
     (case request eng s (GetChannel channelID) of
        (s1, Success _) \<Rightarrow> Inr (s1, Scrubber rest)
      | (s1, Failure errStr) \<Rightarrow>
          if isNotFound errStr then Inr (s1, Pending channelID rest)
          else Inr (s1, Scrubber rest))"
| "taskStep eng s (Pending channelID rest) =
     (case LoadAndDelete (channels s) channelID of
        (m, None) \<Rightarrow> Inr (s, Scrubber rest)
      | (m, Some handler) \<Rightarrow> Inr (s\<lparr>channels := m\<rparr>, Holding handler rest))"
| "taskStep eng s (Holding handler rest) =
     (case cleanup eng s handler of
        Inl p \<Rightarrow> Inl p
      | Inr s' \<Rightarrow> Inr (s', Scrubber rest))"
| "taskStep eng s Finished = Inr (s, Finished)"




text \<open>
  The number of times that the cleanup of a record of the channel has run: each run
  stops the record's worker.
\<close>

fun stopsWorkerOf :: "string \<Rightarrow> Effect \<Rightarrow> bool" where
  "stopsWorkerOf channelID (WorkerStopped c port) = (c = channelID)"
| "stopsWorkerOf channelID effect = False"

definition cleanupRuns :: "string \<Rightarrow> ARIService \<Rightarrow> nat" where
  "cleanupRuns channelID s = length (filter (stopsWorkerOf channelID) (effects s))"

section \<open>Sequences of operations on the metrics store\<close>

datatype MetricsOp =
    OpRecordLatency string real time
  | OpRecordDroppedPackets string int time
  | OpRecordOutgoingPacket string time
  | OpRecordLatePacket string time
  | OpMarkChannelStarted string

fun applyOp :: "Metrics \<Rightarrow> MetricsOp \<Rightarrow> Metrics" where
  "applyOp m (OpRecordLatency channelID latencyMs now) = RecordLatency m channelID latencyMs now"
| "applyOp m (OpRecordDroppedPackets channelID count now) = RecordDroppedPackets m channelID count now"
| "applyOp m (OpRecordOutgoingPacket channelID now) = RecordOutgoingPacket m channelID now"
| "applyOp m (OpRecordLatePacket channelID now) = RecordLatePacket m channelID now"
| "applyOp m (OpMarkChannelStarted channelID) = MarkChannelStarted m channelID"

text \<open>The channels that an operation records a metric for.\<close>

fun recorded :: "MetricsOp \<Rightarrow> string list" where
  "recorded (OpRecordLatency channelID latencyMs now) = [channelID]"
| "recorded (OpRecordDroppedPackets channelID count now) = [channelID]"
| "recorded (OpRecordOutgoingPacket channelID now) = [channelID]"
| "recorded (OpRecordLatePacket channelID now) = [channelID]"
| "recorded (OpMarkChannelStarted channelID) = []"

section \<open>Auxiliary notions for the statements\<close>

text \<open>A clock whose readings start at \<open>t\<close> and advance by one nanosecond.\<close>

definition clockFrom :: "time \<Rightarrow> nat \<Rightarrow> time" where
  "clockFrom t k = t + int k"

text \<open>The sums of the per-channel counters and the number of samples held.\<close>

definition sumOutgoing :: "Metrics \<Rightarrow> int" where
  "sumOutgoing m = sum_list (map (\<lambda>kv. OutgoingPackets (snd kv)) (channelMetrics m))"

definition sumDropped :: "Metrics \<Rightarrow> int" where
  "sumDropped m = sum_list (map (\<lambda>kv. DroppedPackets (snd kv)) (channelMetrics m))"

definition sumLate :: "Metrics \<Rightarrow> int" where
  "sumLate m = sum_list (map (\<lambda>kv. LatePackets (snd kv)) (channelMetrics m))"

definition sampleCount :: "Metrics \<Rightarrow> nat" where
  "sampleCount m = sum_list (map (\<lambda>kv. length (Latencies (snd kv))) (channelMetrics m))"

text \<open>The latency samples held for a channel.\<close>

definition latenciesOf :: "Metrics \<Rightarrow> string \<Rightarrow> real list" where
  "latenciesOf m channelID =
     (case map_of (channelMetrics m) channelID of
        None \<Rightarrow> []
      | Some entry \<Rightarrow> Latencies entry)"

text \<open>
  The workers record a dropped or a late packet for a channel only after a latency
  sample for it: in the stores they produce, an entry without samples has both
  of these counts at zero.
\<close>

definition quietWithoutSamples :: "string \<times> ChannelMetrics \<Rightarrow> bool" where
  "quietWithoutSamples kv =
     (Latencies (snd kv) = [] \<longrightarrow> DroppedPackets (snd kv) = 0 \<and> LatePackets (snd kv) = 0)"

definition countsFollowSamples :: "Metrics \<Rightarrow> bool" where
  "countsFollowSamples m = list_all quietWithoutSamples (channelMetrics m)"

section \<open>Example inputs\<close>

text \<open>
  Concrete inputs for the examples: a configuration, an engine that accepts every
  request (it names the bridge \<open>bridge-1\<close> and gives an external-media channel the
  identifier asked for), and a service with the ports \<open>21000\<close> to \<open>21002\<close>.
\<close>

definition exampleConfig :: Config where
  "exampleConfig =
     \<lparr>AppName = ''ari-app'', BindIP = ''127.0.0.1'', EchoHost = ''127.0.0.1'',
      EchoPort = ''4000''\<rparr>"

fun acceptingEngine :: Engine where
  "acceptingEngine history CreateBridge = Success ''bridge-1''"
| "acceptingEngine history (CreateExternalMedia app host port extID) = Success extID"
| "acceptingEngine history call = Success []"

definition examplePorts :: PortManager where
  "examplePorts = \<lparr>minPort = 21000, maxPort = 21002, ports = [False, False, False]\<rparr>"

definition exampleService :: ARIService where
  "exampleService =
     \<lparr>config = exampleConfig, portManager = examplePorts, channels = [],
      metrics = NewMetrics, effects = []\<rparr>"

text \<open>
  The service with one active channel \<open>ch\<close> on port \<open>21000\<close>, as \<open>createChannel\<close>
  leaves it, with one outgoing packet of the channel recorded in the metrics store.
\<close>

definition exampleHandler :: ChannelHandler where
  "exampleHandler =
     \<lparr>handlerChannelID = ''ch'', externalMediaID = ''external-media-ch'',
      bridgeID = ''bridge-1'', handlerRtpPort = 21000,
      worker = NewWorker ''ch'' ''127.0.0.1'' 21000 ''127.0.0.1'' 4000 0 ''127.0.0.1'',
      startTime = 0\<rparr>"

definition exampleActive :: ARIService where
  "exampleActive =
     \<lparr>config = exampleConfig,
      portManager = \<lparr>minPort = 21000, maxPort = 21002, ports = [True, False, False]\<rparr>,
      channels = [(''ch'', exampleHandler)],
      metrics = RecordOutgoingPacket (MarkChannelStarted NewMetrics ''ch'') ''ch'' 1,
      effects = []\<rparr>"

text \<open>
  The worker of channel \<open>ch\<close> and the metrics store after the worker has handled one
  outbound packet, with sequence number \<open>1000\<close> and timestamp \<open>8000\<close>, at clock
  \<open>100\<close>; and that packet as the echo returns it.
\<close>

definition exampleSender :: Worker where
  "exampleSender =
     (NewWorker ''ch'' ''127.0.0.1'' 21000 ''127.0.0.1'' 4000 0 ''127.0.0.1'')
       \<lparr>latencyTracker := RecordSent NewLatencyTracker 1000 101 102,
        sequenceTracker := TrackOutgoing NewSequenceTracker 1000,
        pacer := \<lparr>baseTimestamp = 8000, baseTime = 104, sampleRate = 8000\<rparr>,
        workerBaseTimestamp := 8000, workerBaseTime := 100\<rparr>"

definition exampleSenderMetrics :: Metrics where
  "exampleSenderMetrics = RecordOutgoingPacket NewMetrics ''ch'' 103"

definition exampleReturn :: Packet where
  "exampleReturn =
     \<lparr>Data = Some \<lparr>SequenceNumber = 1000, Timestamp = 8000\<rparr>, IsFromAsterisk = False,
      ReceiveTime = 5000100\<rparr>"

section \<open>Notions for the begin handler\<close>

text \<open>
  \<open>NewPortManager\<close> makes the slice as long as the range of ports, and no function
  changes its length. The bounds say that the ends of the range and the length of the
  slice are values of \<open>int\<close>, and that the upper end is not the largest one.
\<close>

definition portsCoverRange :: "PortManager \<Rightarrow> bool" where
  "portsCoverRange pm =
     (int (length (ports pm)) = maxPort pm - minPort pm + 1 \<and>
      - (2 ^ 63) \<le> minPort pm \<and> maxPort pm < 2 ^ 63 - 1 \<and>
      int (length (ports pm)) < 2 ^ 63)"

text \<open>The requests that tear an engine resource down.\<close>

fun isTeardown :: "Effect \<Rightarrow> bool" where
  "isTeardown (Request (HangupChannel channelID)) = True"
| "isTeardown (Request (DeleteBridge bridge)) = True"
| "isTeardown effect = False"

text \<open>
  An engine that creates the bridge \<open>bridge-1\<close> and refuses to create the external
  media channel, and a service all of whose three ports are allocated.
\<close>

fun mediaRefusingEngine :: Engine where
  "mediaRefusingEngine history CreateBridge = Success ''bridge-1''"
| "mediaRefusingEngine history (CreateExternalMedia app host port extID) =
     Failure ''ARI API error: 500 - ''"
| "mediaRefusingEngine history call = Success []"

text \<open>
  An engine that creates the bridge and the external media channel, adds the call to the
  bridge, and refuses to add the external media channel \<open>external-media-ch\<close>.
\<close>

fun attachRefusingEngine :: Engine where
  "attachRefusingEngine history CreateBridge = Success ''bridge-1''"
| "attachRefusingEngine history (CreateExternalMedia app host port extID) = Success extID"
| "attachRefusingEngine history (AddChannelToBridge bridge channelID) =
     (if channelID = ''external-media-ch'' then Failure ''ARI API error: 500 - '' else Success [])"
| "attachRefusingEngine history call = Success []"

definition exhaustedService :: ARIService where
  "exhaustedService =
     \<lparr>config = exampleConfig,
      portManager = \<lparr>minPort = 21000, maxPort = 21002, ports = [True, True, True]\<rparr>,
      channels = [], metrics = NewMetrics, effects = []\<rparr>"

text \<open>
  What is to be seen of a service after a run: the channels in its active map, and the
  teardown requests it has sent to the engine.
\<close>

definition activeIDs :: "panic + ARIService \<Rightarrow> string list option" where
  "activeIDs r = (case r of Inl p \<Rightarrow> None | Inr s \<Rightarrow> Some (map fst (channels s)))"

definition teardownsSent :: "panic + ARIService \<Rightarrow> Effect list option" where
  "teardownsSent r = (case r of Inl p \<Rightarrow> None | Inr s \<Rightarrow> Some (filter isTeardown (effects s)))"

definition lastEffect :: "panic + ARIService \<Rightarrow> Effect option" where
  "lastEffect r =
     (case r of
        Inl p \<Rightarrow> None
      | Inr s \<Rightarrow> (if effects s = [] then None else Some (last (effects s))))"

text \<open>Begin events for four channels, in a service with three ports.\<close>

definition fourBegins :: "(Event \<times> time \<times> time) list" where
  "fourBegins =
     [(StasisStart (Some (Some ''ch1'')), 10, 11), (StasisStart (Some (Some ''ch2'')), 20, 21),
      (StasisStart (Some (Some ''ch3'')), 30, 31), (StasisStart (Some (Some ''ch4'')), 40, 41)]"

section \<open>Notions for the interleaving of the handlers and the scrubber\<close>

text \<open>
  A record is sound when it is as \<open>createChannel\<close> stores it: filed under the channel
  of its worker, the worker not stopped. A service is sound when the keys of its active
  map are distinct, as those of a map are, its records are sound and its port pool
  covers its range.
\<close>

definition soundRecord :: "string \<times> ChannelHandler \<Rightarrow> bool" where
  "soundRecord kh = (workerChannelID (worker (snd kh)) = fst kh \<and> \<not> stopChanClosed (worker (snd kh)))"

definition soundService :: "ARIService \<Rightarrow> bool" where
  "soundService s =
     (distinct (map fst (channels s)) \<and> list_all soundRecord (channels s) \<and>
      portsCoverRange (portManager s))"

text \<open>
  An engine reports a channel as gone when it answers every \<open>GetChannel\<close> for it with
  an error that the scrubber takes for \<open>not found\<close>.
\<close>

definition reportsGone :: "Engine \<Rightarrow> string \<Rightarrow> bool" where
  "reportsGone eng channelID =
     (\<forall>history. case eng history (GetChannel channelID) of
                  Failure errStr \<Rightarrow> isNotFound errStr
                | Success v \<Rightarrow> False)"

text \<open>
  A task asks for the cleanup of a channel when it is bound to call \<open>cleanupChannel\<close>
  for it or is in that call before its \<open>LoadAndDelete\<close>: the end handler of an end
  event for the channel, and the scrubber that has the channel still to visit while the
  engine reports it as gone (the first argument).
\<close>

fun asksFor :: "bool \<Rightarrow> string \<Rightarrow> Task \<Rightarrow> bool" where
  "asksFor gone channelID (EndHandler channel) = (channel = Some (Some channelID))"
| "asksFor gone channelID (Scrubber keys) = (gone \<and> channelID \<in> set keys)"
| "asksFor gone channelID (Pending c keys) = (c = channelID \<or> gone \<and> channelID \<in> set keys)"
| "asksFor gone channelID (Holding handler keys) = (gone \<and> channelID \<in> set keys)"
| "asksFor gone channelID task = False"


fun safeFor :: "string \<Rightarrow> Task \<Rightarrow> bool" where
  "safeFor channelID (Holding handler keys) = (\<not> stopChanClosed (worker handler))"
| "safeFor channelID (BeginHandler channel nowT0 nowStart) = (channel \<noteq> Some (Some channelID))"
| "safeFor channelID task = True"

text \<open>
  \<open>holders\<close> counts the tasks that hold a handler of the channel, and \<open>records\<close>
  the entries of the active map for it.
\<close>

fun holds :: "string \<Rightarrow> Task \<Rightarrow> bool" where
  "holds channelID (Holding handler keys) = (workerChannelID (worker handler) = channelID)"
| "holds channelID task = False"


definition records :: "string \<Rightarrow> ARIService \<Rightarrow> nat" where
  "records channelID s = length (filter (\<lambda>kv. fst kv = channelID) (channels s))"








section \<open>The sequence tracker\<close>

lemma ucast_forward_gap:
  fixes a b :: u16
  assumes "a < b"
  shows "unat ((ucast b :: u32) - ucast a - 1) = unat b - unat a - 1"
proof -
  have lt: "unat a < unat b" using assms by (simp add: word_less_nat_alt)
  have bb: "unat b < 2 ^ 16" using unsigned_less [of b] by simp
  have eq: "of_nat (unat b - unat a - 1) = (ucast b :: u32) - ucast a - 1"
    using lt by simp
  have "unat b - unat a - 1 < 2 ^ LENGTH(32)" using bb by simp
  with eq show ?thesis by (rule of_nat_inverse)
qed

lemma ucast_backward_gap:
  fixes a b :: u16
  assumes "b < a" and "b \<noteq> a + 1"
  shows "unat ((0xFFFF - ucast a :: u32) + ucast b - 1) = 65535 - unat a + unat b - 1"
proof -
  have lt: "unat b < unat a" using assms(1) by (simp add: word_less_nat_alt)
  have aa: "unat a \<le> 65535" using unsigned_less [of a, where ?'a = nat] by simp
  have pos: "1 \<le> 65535 - unat a + unat b"
  proof (cases "unat a = 65535")
    case True
    have "a = of_nat (unat a)" by simp
    then have "a = 0xFFFF" unfolding True by simp
    then have "b \<noteq> 0" using assms(2) by auto
    then have "unat b \<noteq> 0" by (simp add: unat_eq_zero)
    then show ?thesis by simp
  next
    case False
    then show ?thesis using aa by simp
  qed
  have eq: "of_nat (65535 - unat a + unat b - 1) = (0xFFFF - ucast a :: u32) + ucast b - 1"
    using aa pos by simp
  have "65535 - unat a + unat b - 1 < 2 ^ LENGTH(32)" using aa lt by simp
  with eq show ?thesis by (rule of_nat_inverse)
qed

text \<open>
  What \<open>TrackIncoming\<close> returns, case by case. No gap is reported while the last
  sequence number is \<open>0\<close>, nor for the successor of the last one. Every other number
  below the last one is taken for a wrap-around and gives \<open>0xFFFF - last + seq - 1\<close>;
  a repetition of the last one gives \<open>2^32 - 1\<close>, the \<open>uint32\<close> subtraction wrapping
  around; a number above gives \<open>seq - last - 1\<close>.
\<close>

lemma TrackIncoming_no_gap:
  assumes "lastIncomingSeq s = 0 \<or> seq = lastIncomingSeq s + 1"
  shows "TrackIncoming s seq =
           (s\<lparr>incomingCount := incomingCount s + 1, lastIncomingSeq := seq\<rparr>, 0)"
  using assms by (auto simp: TrackIncoming_def Let_def)

lemma TrackIncoming_gap:
  assumes "lastIncomingSeq s \<noteq> 0" and "seq \<noteq> lastIncomingSeq s + 1"
  shows "unat (snd (TrackIncoming s seq)) =
           (if seq < lastIncomingSeq s then 65535 - unat (lastIncomingSeq s) + unat seq - 1
            else if seq = lastIncomingSeq s then 2 ^ 32 - 1
            else unat seq - unat (lastIncomingSeq s) - 1)"
proof -
  consider (below) "seq < lastIncomingSeq s" | (same) "seq = lastIncomingSeq s"
    | (above) "lastIncomingSeq s < seq"
    by (meson not_less_iff_gr_or_eq)
  then show ?thesis
  proof cases
    case below
    then show ?thesis
      using assms ucast_backward_gap [of seq "lastIncomingSeq s"]
      by (simp add: TrackIncoming_def Let_def)
  next
    case same
    have "unat (- 1 :: u32) = 2 ^ 32 - 1"
      by (simp add: unsigned_minus_1_eq_mask mask_eq_exp_minus_1)
    then show ?thesis
      using assms same by (simp add: TrackIncoming_def Let_def)
  next
    case above
    then have "\<not> seq < lastIncomingSeq s" "seq \<noteq> lastIncomingSeq s"
      by auto
    then show ?thesis
      using assms above ucast_forward_gap [of "lastIncomingSeq s" seq]
      by (simp add: TrackIncoming_def Let_def)
  qed
qed

lemma TrackIncoming_gap_keeps_last:
  assumes "lastIncomingSeq s \<noteq> 0" and "seq \<noteq> lastIncomingSeq s + 1"
  shows "lastIncomingSeq (fst (TrackIncoming s seq)) = lastIncomingSeq s"
  using assms by (simp add: TrackIncoming_def Let_def)

text \<open>
  C1. The claim gives the gap \<open>1\<close> for the last sequence number \<open>0xFFFE\<close> followed by
  \<open>0x0000\<close>: one packet, \<open>0xFFFF\<close>, is missing. A fresh tracker takes \<open>0xFFFE\<close>
  as its first sequence number. For \<open>0x0000\<close> the wrap-around branch of
  \<open>TrackIncoming\<close> then computes \<open>(0xFFFF - 0xFFFE) + 0 - 1\<close>: the function returns
  the gap \<open>0\<close>, adds nothing to the dropped count and leaves the last sequence number
  at \<open>0xFFFE\<close>.
\<close>

theorem TrackIncoming_wrap_FFFE_to_0:
  "TrackIncoming NewSequenceTracker 0xFFFE =
     (NewSequenceTracker\<lparr>incomingCount := 1, lastIncomingSeq := 0xFFFE\<rparr>, 0) \<and>
   TrackIncoming (NewSequenceTracker\<lparr>incomingCount := 1, lastIncomingSeq := 0xFFFE\<rparr>) 0x0000 =
     (NewSequenceTracker\<lparr>incomingCount := 2, lastIncomingSeq := 0xFFFE\<rparr>, 0)"
  by (simp add: TrackIncoming_def NewSequenceTracker_def)

text \<open>
  C4. The claim has the last-seen sequence number advanced by every update, so that a
  gap is counted once. After the packets \<open>10\<close>, \<open>12\<close> and \<open>13\<close> one packet, \<open>11\<close>,
  is missing. The update with \<open>12\<close> returns the gap \<open>1\<close> from inside the branch that
  found it and leaves the last-seen number at \<open>10\<close>; the update with \<open>13\<close> then
  returns the gap \<open>2\<close>, which counts packet \<open>11\<close> again and packet \<open>12\<close>, which
  arrived; the dropped count stands at \<open>3\<close>.
\<close>

theorem TrackIncoming_10_12_13_counts_again:
  "TrackIncoming NewSequenceTracker 10 =
     (NewSequenceTracker\<lparr>incomingCount := 1, lastIncomingSeq := 10\<rparr>, 0) \<and>
   TrackIncoming (NewSequenceTracker\<lparr>incomingCount := 1, lastIncomingSeq := 10\<rparr>) 12 =
     (NewSequenceTracker\<lparr>incomingCount := 2, lastIncomingSeq := 10, droppedCount := 1\<rparr>, 1) \<and>
   TrackIncoming
       (NewSequenceTracker\<lparr>incomingCount := 2, lastIncomingSeq := 10, droppedCount := 1\<rparr>) 13 =
     (NewSequenceTracker\<lparr>incomingCount := 3, lastIncomingSeq := 10, droppedCount := 3\<rparr>, 2)"
  by (simp add: TrackIncoming_def NewSequenceTracker_def)

section \<open>The media-clock bases\<close>

lemma CalculateDelay_keeps_base:
  assumes "baseTimestamp p \<noteq> 0" and "CalculateDelay p timestamp now = Inr (p', d)"
  shows "p' = p"
  using assms by (auto simp: CalculateDelay_def Let_def split: if_splits)

lemma checkLatePacket_keeps_base:
  assumes "workerBaseTimestamp w \<noteq> 0"
  shows "fst (checkLatePacket w packet receiveTime now) = w"
  using assms by (simp add: checkLatePacket_def Let_def)

lemma handleOutgoingPacket_keeps_bases:
  assumes "workerBaseTimestamp w \<noteq> 0" and "baseTimestamp (pacer w) \<noteq> 0"
    and "handleOutgoingPacket w m packet clock = Inr (w', m')"
  shows "bases w' = bases w"
proof (cases "Data packet")
  case None
  then show ?thesis using assms(3) by (simp add: handleOutgoingPacket_def)
next
  case (Some rtpPacket)
  then show ?thesis
    using assms
    by (auto simp: handleOutgoingPacket_def Let_def bases_def
             split: sum.splits prod.splits dest: CalculateDelay_keeps_base)
qed

lemma handleIncomingPacket_keeps_bases:
  assumes "workerBaseTimestamp w \<noteq> 0"
    and "handleIncomingPacket w m packet clock = (w', m')"
  shows "bases w' = bases w"
proof (cases "Data packet")
  case None
  then show ?thesis using assms(2) by (simp add: handleIncomingPacket_def)
next
  case (Some rtpPacket)
  then show ?thesis
    using assms
    by (auto simp: handleIncomingPacket_def Let_def bases_def checkLatePacket_def
             split: prod.splits if_splits)
qed

text \<open>
  Once both base timestamps are different from \<open>0\<close>, no packet changes either base.
\<close>

lemma packetProcessor_keeps_bases:
  assumes "workerBaseTimestamp w \<noteq> 0" and "baseTimestamp (pacer w) \<noteq> 0"
    and "packetProcessor w m queue = Inr (w', m')"
  shows "bases w' = bases w"
  using assms
proof (induction queue arbitrary: w m)
  case Nil
  then show ?case by simp
next
  case (Cons item queue)
  obtain packet clock where item: "item = (packet, clock)" by (cases item)
  show ?case
  proof (cases "IsFromAsterisk packet")
    case True
    then obtain w1 m1 where
      step: "handleOutgoingPacket w m packet clock = Inr (w1, m1)" and
      rest: "packetProcessor w1 m1 queue = Inr (w', m')"
      using Cons.prems(3) item by (auto split: sum.splits)
    have b: "bases w1 = bases w"
      using handleOutgoingPacket_keeps_bases [OF Cons.prems(1,2) step] .
    then have "workerBaseTimestamp w1 \<noteq> 0" "baseTimestamp (pacer w1) \<noteq> 0"
      using Cons.prems(1,2) by (auto simp: bases_def)
    then show ?thesis using Cons.IH rest b by metis
  next
    case False
    then obtain w1 m1 where
      step: "handleIncomingPacket w m packet clock = (w1, m1)" and
      rest: "packetProcessor w1 m1 queue = Inr (w', m')"
      using Cons.prems(3) item by (auto split: prod.splits)
    have b: "bases w1 = bases w"
      using handleIncomingPacket_keeps_bases [OF Cons.prems(1) step] .
    then have "workerBaseTimestamp w1 \<noteq> 0" "baseTimestamp (pacer w1) \<noteq> 0"
      using Cons.prems(1,2) by (auto simp: bases_def)
    then show ?thesis using Cons.IH rest b by metis
  qed
qed

text \<open>
  A first outbound packet sets both bases to its timestamp, so for a first timestamp
  other than \<open>0\<close> the bases are fixed from then on.
\<close>

lemma first_outgoing_sets_bases:
  assumes "Data packet = Some rtpPacket"
  shows "basesAfter (NewWorker cid bip port ehost eport t ip) m [(packet\<lparr>IsFromAsterisk := True\<rparr>, clock)] =
           Inr ((Timestamp rtpPacket, clock 0), (Timestamp rtpPacket, clock 4))"
  using assms
  by (simp add: basesAfter_def handleOutgoingPacket_def NewWorker_def NewPacketPacer_def
                CalculateDelay_def bases_def Let_def)

text \<open>
  C7. The claim has the bases fixed by the first outbound packet for any first media
  timestamp, \<open>0\<close> included. Both the worker and the pacer take a base timestamp of
  \<open>0\<close> to mean that no base is set. Here a fresh worker handles an outbound packet with
  timestamp \<open>0\<close> at clock \<open>100\<close>: the bases are \<open>(0, 100)\<close> and \<open>(0, 104)\<close>. It
  then handles the next outbound packet, with timestamp \<open>160\<close>, at clock
  \<open>20000100\<close>: both bases are set again, to \<open>(160, 20000100)\<close> and
  \<open>(160, 20000104)\<close>. If instead the echo returns the first packet at clock
  \<open>5000100\<close>, the lateness check sets the worker's base instant again, to
  \<open>5000104\<close>.
\<close>

theorem bases_set_again_after_first_timestamp_0:
  "basesAfter (NewWorker ''ch'' ''127.0.0.1'' 21000 ''127.0.0.1'' 4000 0 ''127.0.0.1'') NewMetrics
     [(\<lparr>Data = Some \<lparr>SequenceNumber = 1000, Timestamp = 0\<rparr>, IsFromAsterisk = True,
        ReceiveTime = 100\<rparr>, clockFrom 100)]
     = Inr ((0, 100), (0, 104)) \<and>
   basesAfter (NewWorker ''ch'' ''127.0.0.1'' 21000 ''127.0.0.1'' 4000 0 ''127.0.0.1'') NewMetrics
     [(\<lparr>Data = Some \<lparr>SequenceNumber = 1000, Timestamp = 0\<rparr>, IsFromAsterisk = True,
        ReceiveTime = 100\<rparr>, clockFrom 100),
      (\<lparr>Data = Some \<lparr>SequenceNumber = 1001, Timestamp = 160\<rparr>, IsFromAsterisk = True,
        ReceiveTime = 20000100\<rparr>, clockFrom 20000100)]
     = Inr ((160, 20000100), (160, 20000104)) \<and>
   basesAfter (NewWorker ''ch'' ''127.0.0.1'' 21000 ''127.0.0.1'' 4000 0 ''127.0.0.1'') NewMetrics
     [(\<lparr>Data = Some \<lparr>SequenceNumber = 1000, Timestamp = 0\<rparr>, IsFromAsterisk = True,
        ReceiveTime = 100\<rparr>, clockFrom 100),
      (\<lparr>Data = Some \<lparr>SequenceNumber = 1000, Timestamp = 0\<rparr>, IsFromAsterisk = False,
        ReceiveTime = 5000100\<rparr>, clockFrom 5000100)]
     = Inr ((0, 5000104), (0, 104))"
  by (simp add: basesAfter_def handleOutgoingPacket_def handleIncomingPacket_def NewWorker_def
        NewPacketPacer_def NewLatencyTracker_def NewSequenceTracker_def CalculateDelay_def
        checkLatePacket_def GetLatency_def RecordSent_def sweep_def TrackIncoming_def
        TrackOutgoing_def bases_def clockFrom_def Second_def)

section \<open>Stopping a worker\<close>

text \<open>
  C6, as the claim states it, fails: a worker is stopped, the call returns normally,
  and a second call of \<open>Stop\<close> on the stopped worker panics on closing the closed stop
  channel.
\<close>

theorem Stop_second_call_panics:
  "Stop (NewWorker ''ch'' ''127.0.0.1'' 21000 ''127.0.0.1'' 4000 0 ''127.0.0.1'') =
     Inr ((NewWorker ''ch'' ''127.0.0.1'' 21000 ''127.0.0.1'' 4000 0 ''127.0.0.1'')
            \<lparr>stopChanClosed := True\<rparr>) \<and>
   Stop ((NewWorker ''ch'' ''127.0.0.1'' 21000 ''127.0.0.1'' 4000 0 ''127.0.0.1'')
            \<lparr>stopChanClosed := True\<rparr>) = Inl CloseOfClosedChannel"
  by (simp add: Stop_def NewWorker_def)

text \<open>
  C6, amended: \<open>Stop\<close> returns normally exactly on a worker that has not been stopped
  before; it changes nothing but the stop channel, which it leaves closed, and every
  call of \<open>Stop\<close> on the worker it returns panics.
\<close>

theorem Stop_returns_once:
  "((\<exists>w'. Stop w = Inr w') \<longleftrightarrow> \<not> stopChanClosed w) \<and>
   (\<forall>w'. Stop w = Inr w' \<longrightarrow>
      w' = w\<lparr>stopChanClosed := True\<rparr> \<and> Stop w' = Inl CloseOfClosedChannel)"
  by (auto simp: Stop_def)

theorem Stop_returns_once_witness:
  "(\<exists>w'. Stop (NewWorker ''ch'' ''127.0.0.1'' 21000 ''127.0.0.1'' 4000 0 ''127.0.0.1'') = Inr w') \<and>
   Stop ((NewWorker ''ch'' ''127.0.0.1'' 21000 ''127.0.0.1'' 4000 0 ''127.0.0.1'')
            \<lparr>stopChanClosed := True\<rparr>) = Inl CloseOfClosedChannel"
proof -
  let ?w = "NewWorker ''ch'' ''127.0.0.1'' 21000 ''127.0.0.1'' 4000 0 ''127.0.0.1''"
  have open_chan: "\<not> stopChanClosed ?w" by (simp add: NewWorker_def)
  have ret: "Stop ?w = Inr (?w\<lparr>stopChanClosed := True\<rparr>)"
    using open_chan by (simp add: Stop_def)
  from Stop_returns_once [of ?w] open_chan ret show ?thesis by auto
qed

section \<open>The metrics store\<close>

lemma keys_storeEntry: "map fst (storeEntry cm k v) = map fst cm"
  by (induction cm) auto

lemma map_of_storeEntry:
  "map_of (storeEntry cm k v) k' =
     (if k' = k \<and> k \<in> fst ` set cm then Some v else map_of cm k')"
  by (induction cm) (fastforce simp: image_iff)+

lemma keys_LoadOrStore:
  "map fst (fst (LoadOrStore cm k v)) =
     (if k \<in> fst ` set cm then map fst cm else map fst cm @ [k])"
  using map_of_eq_None_iff [of cm k]
  by (auto simp: LoadOrStore_def split: option.splits)

lemma map_of_LoadOrStore:
  "map_of (fst (LoadOrStore cm k v)) k = Some (snd (LoadOrStore cm k v))"
  by (auto simp: LoadOrStore_def map_add_def split: option.splits)

lemma map_of_LoadOrStore_other:
  "k' \<noteq> k \<Longrightarrow> map_of (fst (LoadOrStore cm k v)) k' = map_of cm k'"
  by (auto simp: LoadOrStore_def map_add_def split: option.splits)

text \<open>
  Every recording operation leaves the keys of the store as they are when the channel
  has an entry, and appends the channel otherwise: no operation removes a key.
\<close>

lemma keys_store_load:
  "map fst (storeEntry (fst (LoadOrStore cm c v)) c v') =
     (if c \<in> set (map fst cm) then map fst cm else map fst cm @ [c])"
  by (simp add: keys_storeEntry keys_LoadOrStore)

lemma keys_RecordLatency:
  "map fst (channelMetrics (RecordLatency m c x now)) =
     (if c \<in> set (map fst (channelMetrics m)) then map fst (channelMetrics m)
      else map fst (channelMetrics m) @ [c])"
  using keys_store_load [of "channelMetrics m" c]
  by (simp add: RecordLatency_def Let_def split_beta)

lemma keys_RecordDroppedPackets:
  "map fst (channelMetrics (RecordDroppedPackets m c n now)) =
     (if c \<in> set (map fst (channelMetrics m)) then map fst (channelMetrics m)
      else map fst (channelMetrics m) @ [c])"
  using keys_store_load [of "channelMetrics m" c]
  by (simp add: RecordDroppedPackets_def Let_def split_beta)

lemma keys_RecordOutgoingPacket:
  "map fst (channelMetrics (RecordOutgoingPacket m c now)) =
     (if c \<in> set (map fst (channelMetrics m)) then map fst (channelMetrics m)
      else map fst (channelMetrics m) @ [c])"
  using keys_store_load [of "channelMetrics m" c]
  by (simp add: RecordOutgoingPacket_def Let_def split_beta)

lemma keys_RecordLatePacket:
  "map fst (channelMetrics (RecordLatePacket m c now)) =
     (if c \<in> set (map fst (channelMetrics m)) then map fst (channelMetrics m)
      else map fst (channelMetrics m) @ [c])"
  using keys_store_load [of "channelMetrics m" c]
  by (simp add: RecordLatePacket_def Let_def split_beta)

lemma keys_applyOp:
  "map fst (channelMetrics (applyOp m op)) =
     map fst (channelMetrics m) @
       filter (\<lambda>c. c \<notin> set (map fst (channelMetrics m))) (recorded op)"
  by (cases op)
     (simp_all only: applyOp.simps recorded.simps keys_RecordLatency keys_RecordDroppedPackets
        keys_RecordOutgoingPacket keys_RecordLatePacket MarkChannelStarted_def,
      auto)

lemma distinct_keys_applyOp:
  "distinct (map fst (channelMetrics m)) \<Longrightarrow> distinct (map fst (channelMetrics (applyOp m op)))"
  unfolding keys_applyOp by (cases op) auto

lemma set_keys_applyOp:
  "set (map fst (channelMetrics (applyOp m op))) =
     set (map fst (channelMetrics m)) \<union> set (recorded op)"
  unfolding keys_applyOp by auto

lemma keys_foldl_applyOp:
  "distinct (map fst (channelMetrics m)) \<Longrightarrow>
   distinct (map fst (channelMetrics (foldl applyOp m ops))) \<and>
   set (map fst (channelMetrics (foldl applyOp m ops))) =
     set (map fst (channelMetrics m)) \<union> set (concat (map recorded ops))"
proof (induction ops arbitrary: m)
  case Nil
  then show ?case by simp
next
  case (Cons op ops)
  have d: "distinct (map fst (channelMetrics (applyOp m op)))"
    using Cons.prems by (rule distinct_keys_applyOp)
  show ?case
    using Cons.IH [OF d] set_keys_applyOp [of m op] by auto
qed

text \<open>What the walk over the entries accumulates.\<close>

lemma rangeStep_fields:
  "allLatencies (rangeStep kv acc) = allLatencies acc @ Latencies (snd kv)"
  "activeChannels (rangeStep kv acc) = activeChannels acc + 1"
  "totalDroppedPackets (rangeStep kv acc) = totalDroppedPackets acc + DroppedPackets (snd kv)"
  "totalLatePackets (rangeStep kv acc) = totalLatePackets acc + LatePackets (snd kv)"
  "totalPackets (rangeStep kv acc) = totalPackets acc + OutgoingPackets (snd kv)"
  by (simp_all add: rangeStep_def Let_def)

lemma fold_rangeStep:
  "fold rangeStep cm acc =
     \<lparr>allLatencies = allLatencies acc @ concat (map (\<lambda>kv. Latencies (snd kv)) cm),
      activeChannels = activeChannels acc + int (length cm),
      totalDroppedPackets = totalDroppedPackets acc + sum_list (map (\<lambda>kv. DroppedPackets (snd kv)) cm),
      totalLatePackets = totalLatePackets acc + sum_list (map (\<lambda>kv. LatePackets (snd kv)) cm),
      totalPackets = totalPackets acc + sum_list (map (\<lambda>kv. OutgoingPackets (snd kv)) cm)\<rparr>"
proof (induction cm arbitrary: acc)
  case Nil
  then show ?case by simp
next
  case (Cons kv cm)
  have "fold rangeStep (kv # cm) acc = fold rangeStep cm (rangeStep kv acc)"
    by simp
  also have "\<dots> =
     \<lparr>allLatencies = allLatencies (rangeStep kv acc) @ concat (map (\<lambda>kv. Latencies (snd kv)) cm),
      activeChannels = activeChannels (rangeStep kv acc) + int (length cm),
      totalDroppedPackets =
        totalDroppedPackets (rangeStep kv acc) + sum_list (map (\<lambda>kv. DroppedPackets (snd kv)) cm),
      totalLatePackets =
        totalLatePackets (rangeStep kv acc) + sum_list (map (\<lambda>kv. LatePackets (snd kv)) cm),
      totalPackets =
        totalPackets (rangeStep kv acc) + sum_list (map (\<lambda>kv. OutgoingPackets (snd kv)) cm)\<rparr>"
    by (rule Cons.IH)
  finally show ?case
    by (simp add: rangeStep_fields)
qed

lemma rangeAll_fields:
  "activeChannels (rangeAll (channelMetrics m)) = int (length (channelMetrics m))"
  "totalDroppedPackets (rangeAll (channelMetrics m)) = sumDropped m"
  "totalLatePackets (rangeAll (channelMetrics m)) = sumLate m"
  "totalPackets (rangeAll (channelMetrics m)) = sumOutgoing m"
  "length (allLatencies (rangeAll (channelMetrics m))) = sampleCount m"
  by (simp_all add: rangeAll_def fold_rangeStep sumDropped_def sumLate_def sumOutgoing_def
        sampleCount_def length_concat comp_def)

lemma ActiveChannels_length:
  "ActiveChannels (GetGlobalStats m now) = int (length (channelMetrics m))"
  by (simp add: GetGlobalStats_def Let_def rangeAll_fields)

text \<open>
  C3, as the claim states it, fails. Two outgoing packets, one dropped packet and one
  late packet are recorded for a channel and no latency sample: the sums are \<open>2\<close>,
  \<open>1\<close> and \<open>1\<close>, so the claim's ratios are both \<open>1/2\<close>, and the rollup reports
  \<open>0\<close> for both.
\<close>

theorem ratios_zero_without_samples:
  "sumOutgoing (RecordLatePacket (RecordDroppedPackets (RecordOutgoingPacket
       (RecordOutgoingPacket NewMetrics ''ch'' 1) ''ch'' 2) ''ch'' 1 3) ''ch'' 4) = 2 \<and>
   sumDropped (RecordLatePacket (RecordDroppedPackets (RecordOutgoingPacket
       (RecordOutgoingPacket NewMetrics ''ch'' 1) ''ch'' 2) ''ch'' 1 3) ''ch'' 4) = 1 \<and>
   sumLate (RecordLatePacket (RecordDroppedPackets (RecordOutgoingPacket
       (RecordOutgoingPacket NewMetrics ''ch'' 1) ''ch'' 2) ''ch'' 1 3) ''ch'' 4) = 1 \<and>
   LateRatio (GetGlobalStats (RecordLatePacket (RecordDroppedPackets (RecordOutgoingPacket
       (RecordOutgoingPacket NewMetrics ''ch'' 1) ''ch'' 2) ''ch'' 1 3) ''ch'' 4) 5) = 0 \<and>
   PacketLossRatio (GetGlobalStats (RecordLatePacket (RecordDroppedPackets (RecordOutgoingPacket
       (RecordOutgoingPacket NewMetrics ''ch'' 1) ''ch'' 2) ''ch'' 1 3) ''ch'' 4) 5) = 0 \<and>
   LateRatio (GetGlobalStats (RecordLatePacket (RecordDroppedPackets (RecordOutgoingPacket
       (RecordOutgoingPacket NewMetrics ''ch'' 1) ''ch'' 2) ''ch'' 1 3) ''ch'' 4) 5) \<noteq>
     real_of_int (sumLate (RecordLatePacket (RecordDroppedPackets (RecordOutgoingPacket
       (RecordOutgoingPacket NewMetrics ''ch'' 1) ''ch'' 2) ''ch'' 1 3) ''ch'' 4)) / real_of_int (sumOutgoing (RecordLatePacket (RecordDroppedPackets (RecordOutgoingPacket
       (RecordOutgoingPacket NewMetrics ''ch'' 1) ''ch'' 2) ''ch'' 1 3) ''ch'' 4)) \<and>
   PacketLossRatio (GetGlobalStats (RecordLatePacket (RecordDroppedPackets (RecordOutgoingPacket
       (RecordOutgoingPacket NewMetrics ''ch'' 1) ''ch'' 2) ''ch'' 1 3) ''ch'' 4) 5) \<noteq>
     real_of_int (sumDropped (RecordLatePacket (RecordDroppedPackets (RecordOutgoingPacket
       (RecordOutgoingPacket NewMetrics ''ch'' 1) ''ch'' 2) ''ch'' 1 3) ''ch'' 4)) / real_of_int (sumOutgoing (RecordLatePacket (RecordDroppedPackets (RecordOutgoingPacket
       (RecordOutgoingPacket NewMetrics ''ch'' 1) ''ch'' 2) ''ch'' 1 3) ''ch'' 4))"
  by (simp add: GetGlobalStats_def rangeAll_def rangeStep_def RecordLatePacket_def
        RecordDroppedPackets_def RecordOutgoingPacket_def NewMetrics_def LoadOrStore_def
        newChannelMetrics_def sumOutgoing_def sumDropped_def sumLate_def)

text \<open>
  C3, amended: the rollup reports the late ratio as the sum of the late counts over the
  sum of the outbound counts, and the loss ratio as the sum of the dropped counts over
  the sum of the outbound counts, when the store holds at least one latency sample and
  the sum of the outbound counts is positive; otherwise it reports both as zero.
\<close>

theorem GetGlobalStats_ratios:
  "LateRatio (GetGlobalStats m now) =
     (if 0 < sampleCount m \<and> 0 < sumOutgoing m
      then real_of_int (sumLate m) / real_of_int (sumOutgoing m) else 0) \<and>
   PacketLossRatio (GetGlobalStats m now) =
     (if 0 < sampleCount m \<and> 0 < sumOutgoing m
      then real_of_int (sumDropped m) / real_of_int (sumOutgoing m) else 0)"
proof -
  have n: "length (allLatencies (rangeAll (channelMetrics m))) = sampleCount m"
    by (rule rangeAll_fields)
  show ?thesis
    unfolding GetGlobalStats_def Let_def n
    by (simp add: rangeAll_fields)
qed

text \<open>The cleanup of a channel record does not touch the metrics store.\<close>

lemma request_frame:
  "metrics (fst (request eng s call)) = metrics s"
  "channels (fst (request eng s call)) = channels s"
  "portManager (fst (request eng s call)) = portManager s"
  "config (fst (request eng s call)) = config s"
  "effects (fst (request eng s call)) = effects s @ [Request call]"
  by (simp_all add: request_def)

lemma cleanup_metrics:
  assumes "cleanup eng s h = Inr s'"
  shows "metrics s' = metrics s"
  using assms
  by (auto simp: cleanup_def Let_def request_frame split: sum.splits if_splits)

lemma cleanupChannel_metrics:
  assumes "cleanupChannel eng s channelID = Inr s'"
  shows "metrics s' = metrics s"
  using assms cleanup_metrics
  by (fastforce simp: cleanupChannel_def split: prod.splits option.splits)

lemma length_applyOp:
  "length (channelMetrics m) \<le> length (channelMetrics (applyOp m op))"
proof -
  have "length (map fst (channelMetrics m)) \<le> length (map fst (channelMetrics (applyOp m op)))"
    unfolding keys_applyOp by simp
  then show ?thesis by simp
qed

lemma length_foldl_applyOp:
  "length (channelMetrics m) \<le> length (channelMetrics (foldl applyOp m ops))"
proof (induction ops arbitrary: m)
  case Nil
  then show ?case by simp
next
  case (Cons op ops)
  have "length (channelMetrics m) \<le> length (channelMetrics (applyOp m op))"
    by (rule length_applyOp)
  also have "\<dots> \<le> length (channelMetrics (foldl applyOp (applyOp m op) ops))"
    by (rule Cons.IH)
  finally show ?case by simp
qed

text \<open>
  C10. Starting from the empty store, after any sequence of operations the rollup's
  \<open>active_channels\<close> is the number of distinct channels for which a metric has been
  recorded; over any further sequence of operations it does not decrease; and the
  cleanup of a channel leaves the store, hence the value, as it was.
\<close>

theorem ActiveChannels_counts_every_recorded_channel:
  "ActiveChannels (GetGlobalStats (foldl applyOp NewMetrics ops) now) =
     int (card (set (concat (map recorded ops)))) \<and>
   ActiveChannels (GetGlobalStats m now) \<le>
     ActiveChannels (GetGlobalStats (foldl applyOp m ops') now') \<and>
   (\<forall>s'. cleanupChannel eng s channelID = Inr s' \<longrightarrow>
      metrics s' = metrics s \<and>
      ActiveChannels (GetGlobalStats (metrics s') now') =
        ActiveChannels (GetGlobalStats (metrics s) now'))"
proof -
  have d0: "distinct (map fst (channelMetrics NewMetrics))"
    by (simp add: NewMetrics_def)
  let ?m = "foldl applyOp NewMetrics ops"
  have keys: "distinct (map fst (channelMetrics ?m))"
    "set (map fst (channelMetrics ?m)) = set (concat (map recorded ops))"
    using keys_foldl_applyOp [OF d0, of ops] by (simp_all add: NewMetrics_def)
  have "length (channelMetrics ?m) = length (map fst (channelMetrics ?m))"
    by simp
  also have "\<dots> = card (set (map fst (channelMetrics ?m)))"
    using keys(1) by (rule distinct_card [symmetric])
  finally have count: "length (channelMetrics ?m) = card (set (concat (map recorded ops)))"
    using keys(2) by simp
  have mono: "length (channelMetrics m) \<le> length (channelMetrics (foldl applyOp m ops'))"
    by (rule length_foldl_applyOp)
  show ?thesis
    using count mono cleanupChannel_metrics [of eng s channelID]
    by (simp add: ActiveChannels_length)
qed

theorem ActiveChannels_counts_every_recorded_channel_witness:
  "ActiveChannels (GetGlobalStats
      (foldl applyOp NewMetrics
         [OpRecordOutgoingPacket ''a'' 1, OpRecordLatency ''b'' 20 2, OpMarkChannelStarted ''c'',
          OpRecordLatePacket ''a'' 3]) 9) = 2 \<and>
   cleanupChannel acceptingEngine exampleActive ''ch'' =
     Inr (exampleActive
            \<lparr>portManager := examplePorts, channels := [],
             effects := [WorkerStopped ''ch'' 21000, Request (HangupChannel ''external-media-ch''),
                         Request (DeleteBridge ''bridge-1'')]\<rparr>) \<and>
   ActiveChannels (GetGlobalStats
      (metrics (exampleActive
            \<lparr>portManager := examplePorts, channels := [],
             effects := [WorkerStopped ''ch'' 21000, Request (HangupChannel ''external-media-ch''),
                         Request (DeleteBridge ''bridge-1'')]\<rparr>)) 9) = 1"
proof -
  let ?ops = "[OpRecordOutgoingPacket ''a'' 1, OpRecordLatency ''b'' 20 2, OpMarkChannelStarted ''c'',
               OpRecordLatePacket ''a'' 3]"
  let ?s' = "exampleActive
            \<lparr>portManager := examplePorts, channels := [],
             effects := [WorkerStopped ''ch'' 21000, Request (HangupChannel ''external-media-ch''),
                         Request (DeleteBridge ''bridge-1'')]\<rparr>"
  have run: "cleanupChannel acceptingEngine exampleActive ''ch'' = Inr ?s'"
    by (simp add: cleanupChannel_def LoadAndDelete_def exampleActive_def exampleHandler_def
          cleanup_def Stop_def NewWorker_def ReleasePort_def wrap64_def request_def examplePorts_def)
  have before: "ActiveChannels (GetGlobalStats (metrics exampleActive) 9) = 1"
    by (simp add: ActiveChannels_length exampleActive_def RecordOutgoingPacket_def
          MarkChannelStarted_def NewMetrics_def LoadOrStore_def)
  have "card (set (concat (map recorded ?ops))) = 2"
    by (simp add: card_insert_if)
  then show ?thesis
    using ActiveChannels_counts_every_recorded_channel
            [of ?ops 9 NewMetrics "[]" 9 acceptingEngine exampleActive "''ch''"]
          run before
    by simp
qed

section \<open>The correlator\<close>

lemma GetLatency_found:
  assumes "sentTimes t seq = Some sent"
  shows "GetLatency t seq now = (t\<lparr>sentTimes := (sentTimes t)(seq := None)\<rparr>, now - sent, True)"
  using assms by (simp add: GetLatency_def)

lemma GetLatency_missing:
  assumes "sentTimes t seq = None"
  shows "GetLatency t seq now = (t, 0, False)"
  using assms by (simp add: GetLatency_def)

text \<open>
  \<open>RecordSent\<close> holds the new entry and every older one, except those sent more than
  three seconds before its clock reading.
\<close>

lemma RecordSent_entries:
  "sentTimes (RecordSent t seq sendTime now) k =
     (case (if k = seq then Some sendTime else sentTimes t k) of
        None \<Rightarrow> None
      | Some sent \<Rightarrow> if sent < now - 3 * Second then None else Some sent)"
  by (simp add: RecordSent_def sweep_def Let_def)

text \<open>The samples of a channel after each recording operation.\<close>

lemma map_of_store_load:
  "map_of (storeEntry (fst (LoadOrStore cm c v)) c e) c' =
     (if c' = c then Some e else map_of cm c')"
proof (cases "c' = c")
  case True
  have "c \<in> fst ` set (fst (LoadOrStore cm c v))"
    using map_of_LoadOrStore [of cm c v]
    by (metis map_of_eq_None_iff option.distinct(1))
  then show ?thesis
    using True by (simp add: map_of_storeEntry)
next
  case False
  then show ?thesis
    by (simp add: map_of_storeEntry map_of_LoadOrStore_other)
qed

lemma Latencies_loaded:
  "Latencies (snd (LoadOrStore (channelMetrics m) c (newChannelMetrics c now))) = latenciesOf m c"
  by (simp add: LoadOrStore_def latenciesOf_def newChannelMetrics_def split: option.splits)

lemma latenciesOf_RecordLatency:
  "latenciesOf (RecordLatency m c x now) c \<noteq> [] \<and>
   last (latenciesOf (RecordLatency m c x now) c) = x"
  by (simp add: latenciesOf_def RecordLatency_def Let_def split_beta map_of_store_load last_drop)

lemma latenciesOf_RecordDroppedPackets:
  "latenciesOf (RecordDroppedPackets m c n now) c' = latenciesOf m c'"
  using Latencies_loaded [of m c now]
  by (simp add: latenciesOf_def RecordDroppedPackets_def Let_def split_beta map_of_store_load)

lemma latenciesOf_RecordLatePacket:
  "latenciesOf (RecordLatePacket m c now) c' = latenciesOf m c'"
  using Latencies_loaded [of m c now]
  by (simp add: latenciesOf_def RecordLatePacket_def Let_def split_beta map_of_store_load)

lemma totalLatencies_recorded:
  "totalLatencies (RecordLatency m c x now) = totalLatencies m + 1"
  "totalLatencies (RecordDroppedPackets m c n now) = totalLatencies m"
  "totalLatencies (RecordLatePacket m c now) = totalLatencies m"
  by (simp_all add: RecordLatency_def RecordDroppedPackets_def RecordLatePacket_def
        Let_def split_beta)

lemma Milliseconds_nonneg: "0 \<le> d \<Longrightarrow> 0 \<le> Milliseconds d"
  by (simp add: Milliseconds_def quot_def sgn_if pos_imp_zdiv_nonneg_iff)

text \<open>What the ingress handler leaves in the tracker and in the metrics store.\<close>

lemma handleIncomingPacket_found:
  assumes "Data packet = Some rtp"
    and "sentTimes (latencyTracker w) (SequenceNumber rtp) = Some sent"
    and "handleIncomingPacket w m packet clock = (w', m')"
  shows "sentTimes (latencyTracker w') = (sentTimes (latencyTracker w))(SequenceNumber rtp := None)"
    and "totalLatencies m' = totalLatencies m + 1"
    and "latenciesOf m' (workerChannelID w) \<noteq> []"
    and "last (latenciesOf m' (workerChannelID w)) = real_of_int (Milliseconds (clock 0 - sent))"
  using assms latenciesOf_RecordLatency [of m "workerChannelID w"
      "real_of_int (Milliseconds (clock 0 - sent))" "clock 1"]
  by (auto simp: handleIncomingPacket_def GetLatency_found Let_def checkLatePacket_def
        latenciesOf_RecordDroppedPackets latenciesOf_RecordLatePacket totalLatencies_recorded
        split: prod.splits if_splits)

lemma handleIncomingPacket_missing:
  assumes "Data packet = Some rtp"
    and "sentTimes (latencyTracker w) (SequenceNumber rtp) = None"
  shows "handleIncomingPacket w m packet clock = (w, m)"
  using assms by (simp add: handleIncomingPacket_def GetLatency_missing)

text \<open>
  C8. An ingress packet with sequence number \<open>s\<close> is handled. Either the correlator
  holds \<open>s\<close> with its send instant: then the handler removes that entry and no other,
  and records one sample for the channel, the time since the send instant in whole
  milliseconds, which is not negative when the clock has not gone back since the send.
  Or the correlator does not hold \<open>s\<close>: then the correlator and the metrics store stay
  as they are. In both cases a lookup of \<open>s\<close> after the handler finds nothing. An
  entry leaves the correlator in no other way than by such a lookup or by the sweep of
  \<open>RecordSent\<close>, which drops exactly the entries sent more than three seconds before.
\<close>

theorem correlator_consumes_or_misses:
  assumes "Data packet = Some rtp"
    and "handleIncomingPacket w m packet clock = (w', m')"
  shows
    "(case sentTimes (latencyTracker w) (SequenceNumber rtp) of
        Some sent \<Rightarrow>
          sentTimes (latencyTracker w') =
            (sentTimes (latencyTracker w))(SequenceNumber rtp := None) \<and>
          totalLatencies m' = totalLatencies m + 1 \<and>
          latenciesOf m' (workerChannelID w) \<noteq> [] \<and>
          last (latenciesOf m' (workerChannelID w)) =
            real_of_int (Milliseconds (clock 0 - sent)) \<and>
          (sent \<le> clock 0 \<longrightarrow> 0 \<le> last (latenciesOf m' (workerChannelID w)))
      | None \<Rightarrow> latencyTracker w' = latencyTracker w \<and> m' = m) \<and>
     GetLatency (latencyTracker w') (SequenceNumber rtp) later = (latencyTracker w', 0, False) \<and>
     (\<forall>k sent. sentTimes t k = Some sent \<and> k \<noteq> seq \<longrightarrow>
        sentTimes (RecordSent t seq sendTime now) k =
          (if sent < now - 3 * Second then None else Some sent))"
proof (cases "sentTimes (latencyTracker w) (SequenceNumber rtp)")
  case None
  have same: "w' = w" "m' = m"
    using handleIncomingPacket_missing [OF assms(1) None, of m clock] assms(2) by simp_all
  show ?thesis
    using None same by (simp add: GetLatency_missing RecordSent_entries)
next
  case (Some sent)
  note found = handleIncomingPacket_found [OF assms(1) Some assms(2)]
  have gone: "sentTimes (latencyTracker w') (SequenceNumber rtp) = None"
    using found(1) by simp
  have "sent \<le> clock 0 \<Longrightarrow> 0 \<le> last (latenciesOf m' (workerChannelID w))"
    using found(4) Milliseconds_nonneg [of "clock 0 - sent"] by simp
  then show ?thesis
    using Some found gone by (simp add: GetLatency_missing RecordSent_entries)
qed

theorem correlator_consumes_or_misses_witness:
  "sentTimes (latencyTracker exampleSender) 1000 = Some 101 \<and>
   sentTimes (latencyTracker
      (fst (handleIncomingPacket exampleSender exampleSenderMetrics exampleReturn
              (clockFrom 5000100)))) 1000 = None \<and>
   totalLatencies
      (snd (handleIncomingPacket exampleSender exampleSenderMetrics exampleReturn
              (clockFrom 5000100))) = 1 \<and>
   last (latenciesOf
      (snd (handleIncomingPacket exampleSender exampleSenderMetrics exampleReturn
              (clockFrom 5000100))) ''ch'') = 4 \<and>
   0 \<le> last (latenciesOf
      (snd (handleIncomingPacket exampleSender exampleSenderMetrics exampleReturn
              (clockFrom 5000100))) ''ch'') \<and>
   handleIncomingPacket
      (fst (handleIncomingPacket exampleSender exampleSenderMetrics exampleReturn
              (clockFrom 5000100)))
      (snd (handleIncomingPacket exampleSender exampleSenderMetrics exampleReturn
              (clockFrom 5000100)))
      exampleReturn (clockFrom 9000000) =
     handleIncomingPacket exampleSender exampleSenderMetrics exampleReturn (clockFrom 5000100)"
proof -
  let ?rtp = "\<lparr>SequenceNumber = 1000, Timestamp = 8000\<rparr>"
  let ?r = "handleIncomingPacket exampleSender exampleSenderMetrics exampleReturn (clockFrom 5000100)"
  have data: "Data exampleReturn = Some ?rtp"
    by (simp add: exampleReturn_def)
  have held: "sentTimes (latencyTracker exampleSender) 1000 = Some 101"
    by (simp add: exampleSender_def RecordSent_entries NewLatencyTracker_def Second_def)
  have workerChannel: "workerChannelID exampleSender = ''ch''"
    by (simp add: exampleSender_def NewWorker_def)
  have total: "totalLatencies exampleSenderMetrics = 0"
    by (simp add: exampleSenderMetrics_def RecordOutgoingPacket_def NewMetrics_def split_beta)
  have ms: "Milliseconds (clockFrom 5000100 0 - 101) = 4"
    by (simp add: Milliseconds_def quot_def clockFrom_def)
  have order: "101 \<le> clockFrom 5000100 0"
    by (simp add: clockFrom_def)
  have first: "sentTimes (latencyTracker (fst ?r)) 1000 = None \<and>
      totalLatencies (snd ?r) = 1 \<and> last (latenciesOf (snd ?r) ''ch'') = 4 \<and>
      0 \<le> last (latenciesOf (snd ?r) ''ch'')"
    using correlator_consumes_or_misses
            [of exampleReturn ?rtp exampleSender exampleSenderMetrics "clockFrom 5000100"
                "fst ?r" "snd ?r", OF data]
          held workerChannel total ms order
    by simp
  have again: "handleIncomingPacket (fst ?r) (snd ?r) exampleReturn (clockFrom 9000000) = ?r"
    using handleIncomingPacket_missing [OF data, of "fst ?r" "snd ?r" "clockFrom 9000000"] first
    by simp
  show ?thesis
    using held first again by simp
qed

section \<open>The ratios in the stores that the workers produce\<close>

lemma list_all_storeEntry:
  "list_all P cm \<Longrightarrow> P (k, v) \<Longrightarrow> list_all P (storeEntry cm k v)"
  by (induction cm) auto

lemma list_all_LoadOrStore:
  assumes "list_all P cm" and "P (k, v)"
  shows "list_all P (fst (LoadOrStore cm k v)) \<and> P (k, snd (LoadOrStore cm k v))"
proof (cases "map_of cm k")
  case None
  then show ?thesis using assms by (simp add: LoadOrStore_def)
next
  case (Some e)
  then have "(k, e) \<in> set cm" by (rule map_of_SomeD)
  then have "P (k, e)" using assms(1) by (auto simp: list_all_iff)
  then show ?thesis using assms(1) Some by (simp add: LoadOrStore_def)
qed

lemma quiet_new: "quietWithoutSamples (c, newChannelMetrics c now)"
  by (simp add: quietWithoutSamples_def newChannelMetrics_def)

lemma list_all_entry_updated:
  assumes "list_all P cm" and "P (k, v)"
    and "P (k, snd (LoadOrStore cm k v)) \<Longrightarrow> P (k, f (snd (LoadOrStore cm k v)))"
  shows "list_all P (storeEntry (fst (LoadOrStore cm k v)) k (f (snd (LoadOrStore cm k v))))"
  using list_all_LoadOrStore [OF assms(1,2)] assms(3) by (simp add: list_all_storeEntry)

lemma countsFollowSamples_RecordOutgoingPacket:
  assumes "countsFollowSamples m"
  shows "countsFollowSamples (RecordOutgoingPacket m c now)"
proof -
  define loaded where "loaded = LoadOrStore (channelMetrics m) c (newChannelMetrics c now)"
  define f where "f = (\<lambda>e :: ChannelMetrics. e\<lparr>OutgoingPackets := OutgoingPackets e + 1\<rparr>)"
  have entries: "channelMetrics (RecordOutgoingPacket m c now) = storeEntry (fst loaded) c (f (snd loaded))"
    by (simp add: RecordOutgoingPacket_def Let_def split_beta loaded_def f_def)
  have "quietWithoutSamples (c, snd loaded) \<Longrightarrow> quietWithoutSamples (c, f (snd loaded))"
    by (simp add: quietWithoutSamples_def f_def)
  then have "list_all quietWithoutSamples (storeEntry (fst loaded) c (f (snd loaded)))"
    unfolding loaded_def
    by (rule list_all_entry_updated [OF assms(1) [unfolded countsFollowSamples_def] quiet_new])
  then show ?thesis
    by (simp add: countsFollowSamples_def entries)
qed

lemma countsFollowSamples_RecordLatency:
  assumes "countsFollowSamples m"
  shows "countsFollowSamples (RecordLatency m c x now)"
proof -
  define loaded where "loaded = LoadOrStore (channelMetrics m) c (newChannelMetrics c now)"
  define f where "f = (\<lambda>e :: ChannelMetrics. e\<lparr>Latencies := (if length (Latencies e @ [x]) > 10000
        then drop 1000 (Latencies e @ [x]) else Latencies e @ [x])\<rparr>)"
  have entries: "channelMetrics (RecordLatency m c x now) = storeEntry (fst loaded) c (f (snd loaded))"
    by (simp add: RecordLatency_def Let_def split_beta loaded_def f_def)
  have "quietWithoutSamples (c, snd loaded) \<Longrightarrow> quietWithoutSamples (c, f (snd loaded))"
    by (simp add: quietWithoutSamples_def f_def)
  then have "list_all quietWithoutSamples (storeEntry (fst loaded) c (f (snd loaded)))"
    unfolding loaded_def
    by (rule list_all_entry_updated [OF assms(1) [unfolded countsFollowSamples_def] quiet_new])
  then show ?thesis
    by (simp add: countsFollowSamples_def entries)
qed

lemma countsFollowSamples_RecordDroppedPackets:
  assumes "countsFollowSamples m" and "latenciesOf m c \<noteq> []"
  shows "countsFollowSamples (RecordDroppedPackets m c n now)"
proof -
  define loaded where "loaded = LoadOrStore (channelMetrics m) c (newChannelMetrics c now)"
  define f where "f = (\<lambda>e :: ChannelMetrics. e\<lparr>DroppedPackets := DroppedPackets e + n\<rparr>)"
  have entries: "channelMetrics (RecordDroppedPackets m c n now) = storeEntry (fst loaded) c (f (snd loaded))"
    by (simp add: RecordDroppedPackets_def Let_def split_beta loaded_def f_def)
  have samples: "Latencies (snd loaded) \<noteq> []"
    using assms(2) by (simp add: loaded_def Latencies_loaded)
  have "quietWithoutSamples (c, snd loaded) \<Longrightarrow> quietWithoutSamples (c, f (snd loaded))"
    using samples by (simp add: quietWithoutSamples_def f_def)
  then have "list_all quietWithoutSamples (storeEntry (fst loaded) c (f (snd loaded)))"
    unfolding loaded_def
    by (rule list_all_entry_updated [OF assms(1) [unfolded countsFollowSamples_def] quiet_new])
  then show ?thesis
    by (simp add: countsFollowSamples_def entries)
qed

lemma countsFollowSamples_RecordLatePacket:
  assumes "countsFollowSamples m" and "latenciesOf m c \<noteq> []"
  shows "countsFollowSamples (RecordLatePacket m c now)"
proof -
  define loaded where "loaded = LoadOrStore (channelMetrics m) c (newChannelMetrics c now)"
  define f where "f = (\<lambda>e :: ChannelMetrics. e\<lparr>LatePackets := LatePackets e + 1\<rparr>)"
  have entries: "channelMetrics (RecordLatePacket m c now) = storeEntry (fst loaded) c (f (snd loaded))"
    by (simp add: RecordLatePacket_def Let_def split_beta loaded_def f_def)
  have samples: "Latencies (snd loaded) \<noteq> []"
    using assms(2) by (simp add: loaded_def Latencies_loaded)
  have "quietWithoutSamples (c, snd loaded) \<Longrightarrow> quietWithoutSamples (c, f (snd loaded))"
    using samples by (simp add: quietWithoutSamples_def f_def)
  then have "list_all quietWithoutSamples (storeEntry (fst loaded) c (f (snd loaded)))"
    unfolding loaded_def
    by (rule list_all_entry_updated [OF assms(1) [unfolded countsFollowSamples_def] quiet_new])
  then show ?thesis
    by (simp add: countsFollowSamples_def entries)
qed

lemma countsFollowSamples_handleOutgoingPacket:
  assumes "countsFollowSamples m" and "handleOutgoingPacket w m packet clock = Inr (w', m')"
  shows "countsFollowSamples m'"
  using assms countsFollowSamples_RecordOutgoingPacket [OF assms(1)]
  by (auto simp: handleOutgoingPacket_def Let_def split: option.splits sum.splits)

lemma countsFollowSamples_handleIncomingPacket:
  assumes "countsFollowSamples m" and "handleIncomingPacket w m packet clock = (w', m')"
  shows "countsFollowSamples m'"
proof (cases "Data packet")
  case None
  then show ?thesis using assms by (simp add: handleIncomingPacket_def)
next
  case (Some rtp)
  show ?thesis
  proof (cases "sentTimes (latencyTracker w) (SequenceNumber rtp)")
    case None
    then show ?thesis
      using assms handleIncomingPacket_missing [OF Some None, of m clock] by simp
  next
    case (Some sent)
    let ?c = "workerChannelID w"
    let ?m1 = "RecordLatency m ?c (real_of_int (Milliseconds (clock 0 - sent))) (clock 1)"
    have m1: "countsFollowSamples ?m1"
      using assms(1) by (rule countsFollowSamples_RecordLatency)
    have l1: "latenciesOf ?m1 ?c \<noteq> []"
      using latenciesOf_RecordLatency by simp
    have m2: "countsFollowSamples (RecordDroppedPackets ?m1 ?c n now) \<and>
              latenciesOf (RecordDroppedPackets ?m1 ?c n now) ?c \<noteq> []" for n now
      using countsFollowSamples_RecordDroppedPackets [OF m1 l1] l1
      by (simp add: latenciesOf_RecordDroppedPackets)
    have late: "countsFollowSamples (RecordLatePacket m0 ?c now)"
      if "countsFollowSamples m0" "latenciesOf m0 ?c \<noteq> []" for m0 now
      using that by (rule countsFollowSamples_RecordLatePacket)
    show ?thesis
      using assms(2) \<open>Data packet = Some rtp\<close> Some m1 l1 m2 late
      by (auto simp: handleIncomingPacket_def GetLatency_found Let_def
               split: prod.splits if_splits)
  qed
qed

lemma countsFollowSamples_packetProcessor:
  assumes "countsFollowSamples m" and "packetProcessor w m queue = Inr (w', m')"
  shows "countsFollowSamples m'"
  using assms
proof (induction queue arbitrary: w m)
  case Nil
  then show ?case by simp
next
  case (Cons item queue)
  obtain packet clock where item: "item = (packet, clock)" by (cases item)
  show ?case
  proof (cases "IsFromAsterisk packet")
    case True
    then obtain w1 m1 where
      step: "handleOutgoingPacket w m packet clock = Inr (w1, m1)" and
      rest: "packetProcessor w1 m1 queue = Inr (w', m')"
      using Cons.prems(2) item by (auto split: sum.splits)
    show ?thesis
      using Cons.IH [OF countsFollowSamples_handleOutgoingPacket [OF Cons.prems(1) step] rest] .
  next
    case False
    then obtain w1 m1 where
      step: "handleIncomingPacket w m packet clock = (w1, m1)" and
      rest: "packetProcessor w1 m1 queue = Inr (w', m')"
      using Cons.prems(2) item by (auto split: prod.splits)
    show ?thesis
      using Cons.IH [OF countsFollowSamples_handleIncomingPacket [OF Cons.prems(1) step] rest] .
  qed
qed

text \<open>
  In such a store the condition on the samples changes nothing: the ratios are the
  quotients of the sums whenever the sum of the outbound counts is positive.
\<close>

lemma no_samples_no_counts:
  assumes "list_all quietWithoutSamples cm"
    and "sum_list (map (\<lambda>kv. length (Latencies (snd kv))) cm) = 0"
  shows "sum_list (map (\<lambda>kv. DroppedPackets (snd kv)) cm) = 0 \<and>
         sum_list (map (\<lambda>kv. LatePackets (snd kv)) cm) = 0"
  using assms by (induction cm) (auto simp: quietWithoutSamples_def)

lemma ratios_in_worker_stores:
  assumes "countsFollowSamples m"
  shows "LateRatio (GetGlobalStats m now) =
           (if 0 < sumOutgoing m then real_of_int (sumLate m) / real_of_int (sumOutgoing m) else 0)"
    and "PacketLossRatio (GetGlobalStats m now) =
           (if 0 < sumOutgoing m then real_of_int (sumDropped m) / real_of_int (sumOutgoing m) else 0)"
proof -
  have zero: "sampleCount m = 0 \<Longrightarrow> sumDropped m = 0 \<and> sumLate m = 0"
    using no_samples_no_counts [of "channelMetrics m"] assms
    by (simp add: countsFollowSamples_def sampleCount_def sumDropped_def sumLate_def)
  have n: "length (allLatencies (rangeAll (channelMetrics m))) = sampleCount m"
    by (rule rangeAll_fields)
  show "LateRatio (GetGlobalStats m now) =
           (if 0 < sumOutgoing m then real_of_int (sumLate m) / real_of_int (sumOutgoing m) else 0)"
    and "PacketLossRatio (GetGlobalStats m now) =
           (if 0 < sumOutgoing m then real_of_int (sumDropped m) / real_of_int (sumOutgoing m) else 0)"
    unfolding GetGlobalStats_def Let_def n
    using zero by (auto simp: rangeAll_fields)
qed

section \<open>The port manager\<close>

lemma wrap64_id: "- (2 ^ 63) \<le> x \<Longrightarrow> x < 2 ^ 63 \<Longrightarrow> wrap64 x = x"
  by (simp add: wrap64_def)

lemma wrap64_signed: "wrap64 x = signed_take_bit 63 x"
  by (simp add: wrap64_def signed_take_bit_eq_take_bit_shift take_bit_eq_mod)

text \<open>
  For a range of ports inside \<open>int\<close>, \<open>NewPortManager\<close> makes a pool that covers
  the range. With the ends of the range in the wrong order, the size can wrap around to
  a small positive number.
\<close>

lemma NewPortManager_covers:
  assumes "NewPortManager mn mx = Inr pm" and "- (2 ^ 63) \<le> mn" and "mx < 2 ^ 63 - 1"
    and "mn \<le> mx + 1"
  shows "portsCoverRange pm"
proof (cases "mx - mn < 2 ^ 63 - 1")
  case True
  then have "wrap64 (mx - mn) = mx - mn" using assms(4) by (simp add: wrap64_id)
  moreover have "wrap64 (mx - mn + 1) = mx - mn + 1" using True assms(4) by (simp add: wrap64_id)
  ultimately show ?thesis
    using assms True
    by (auto simp: NewPortManager_def Let_def portsCoverRange_def split: if_splits)
next
  case False
  have "wrap64 (wrap64 (mx - mn) + 1) = wrap64 (mx - mn + 1)"
    using signed_take_bit_add [of 63 "mx - mn" 1] by (simp add: wrap64_signed)
  moreover have "wrap64 (mx - mn + 1) = mx - mn + 1 - 2 ^ 64"
  proof -
    define a where "a = mx - mn + 1 + 2 ^ 63 - 2 ^ 64"
    have "0 \<le> a" and "a < 2 ^ 64" using False assms(2,3) by (simp_all add: a_def)
    then have "(a + 2 ^ 64) mod 2 ^ 64 = a" by simp
    moreover have "mx - mn + 1 + 2 ^ 63 = a + 2 ^ 64" by (simp add: a_def)
    ultimately show ?thesis by (simp add: wrap64_def a_def)
  qed
  ultimately have "wrap64 (wrap64 (mx - mn) + 1) < 0"
    using assms(2,3) by simp
  then show ?thesis using assms(1) by (simp add: NewPortManager_def Let_def)
qed

lemma NewPortManager_example: "NewPortManager 21000 21002 = Inr examplePorts"
  by (simp add: NewPortManager_def examplePorts_def wrap64_def maxAlloc_def eval_nat_numeral)

lemma NewPortManager_wraps:
  "NewPortManager (2 ^ 63 - 1) (- (2 ^ 63)) =
     Inr \<lparr>minPort = 2 ^ 63 - 1, maxPort = - (2 ^ 63), ports = [False, False]\<rparr>"
  by (simp add: NewPortManager_def wrap64_def maxAlloc_def eval_nat_numeral)

lemma scanPorts_exhausted_unchanged:
  "scanPorts pm port = Inr (pm', p, Some e) \<Longrightarrow> pm' = pm"
proof (induction pm port rule: scanPorts.induct)
  case (1 pm port)
  then show ?case
    by (subst (asm) (2) scanPorts.simps) (auto simp: Let_def split: if_splits)
qed

lemma scanPorts_returns:
  assumes "portsCoverRange pm" and "minPort pm \<le> port" and "port \<le> maxPort pm + 1"
  shows "\<exists>pm' p e. scanPorts pm port = Inr (pm', p, e) \<and> portsCoverRange pm'"
  using assms
proof (induction pm port rule: scanPorts.induct)
  case (1 pm port)
  show ?case
  proof (cases "port \<le> maxPort pm")
    case False
    then show ?thesis using "1.prems"(1) by (subst scanPorts.simps) simp
  next
    case True
    have idx: "wrap64 (port - minPort pm) = port - minPort pm"
      using True "1.prems"(1,2) by (simp add: portsCoverRange_def wrap64_id)
    have inside: "\<not> (port - minPort pm < 0 \<or> int (length (ports pm)) \<le> port - minPort pm)"
      using True "1.prems"(1,2) by (simp add: portsCoverRange_def)
    have nxt: "wrap64 (port + 1) = port + 1"
      using True "1.prems"(1,2) by (simp add: portsCoverRange_def wrap64_id)
    show ?thesis
    proof (cases "ports pm ! nat (port - minPort pm)")
      case False
      then show ?thesis
        using True idx inside "1.prems"(1)
        by (subst scanPorts.simps) (simp add: Let_def portsCoverRange_def)
    next
      case taken: True
      have "\<exists>pm' p e. scanPorts pm (wrap64 (port + 1)) = Inr (pm', p, e) \<and> portsCoverRange pm'"
        using "1.IH" [OF True refl _ _ "1.prems"(1)] inside idx taken nxt True "1.prems"(2)
        by simp
      then show ?thesis
        using True idx inside taken by (subst scanPorts.simps) (simp add: Let_def)
    qed
  qed
qed

lemma GetPort_returns:
  assumes "portsCoverRange pm"
  shows "\<exists>pm' p e. GetPort pm = Inr (pm', p, e) \<and> portsCoverRange pm'"
proof (cases "minPort pm \<le> maxPort pm + 1")
  case True
  then show ?thesis using scanPorts_returns [OF assms, of "minPort pm"] by (simp add: GetPort_def)
next
  case False
  then have "scanPorts pm (minPort pm) = Inr (pm, 0, Some ErrNoPortsAvailable)"
    by (subst scanPorts.simps) simp
  then show ?thesis using assms by (simp add: GetPort_def)
qed

text \<open>When every port of the range is allocated, \<open>GetPort\<close> fails and changes nothing.\<close>

lemma scanPorts_all_allocated:
  assumes "portsCoverRange pm" and "list_all (\<lambda>b. b) (ports pm)" and "minPort pm \<le> port"
  shows "scanPorts pm port = Inr (pm, 0, Some ErrNoPortsAvailable)"
  using assms
proof (induction pm port rule: scanPorts.induct)
  case (1 pm port)
  show ?case
  proof (cases "port \<le> maxPort pm")
    case False
    then show ?thesis by (subst scanPorts.simps) simp
  next
    case True
    have idx: "wrap64 (port - minPort pm) = port - minPort pm"
      using True "1.prems"(1,3) by (simp add: portsCoverRange_def wrap64_id)
    have nxt: "wrap64 (port + 1) = port + 1"
      using True "1.prems"(1,3) by (simp add: portsCoverRange_def wrap64_id)
    have inside: "\<not> (port - minPort pm < 0 \<or> int (length (ports pm)) \<le> port - minPort pm)"
      using True "1.prems"(1,3) by (simp add: portsCoverRange_def)
    then have "nat (port - minPort pm) < length (ports pm)" by linarith
    then have taken: "ports pm ! nat (port - minPort pm)"
      using "1.prems"(2) by (simp add: list_all_length)
    have "scanPorts pm (wrap64 (port + 1)) = Inr (pm, 0, Some ErrNoPortsAvailable)"
      using "1.IH" [OF True refl _ _ "1.prems"(1,2)] inside idx taken nxt "1.prems"(3) by simp
    then show ?thesis
      using True inside idx taken by (subst scanPorts.simps) (simp add: Let_def)
  qed
qed

lemma GetPort_all_allocated:
  assumes "portsCoverRange pm" and "list_all (\<lambda>b. b) (ports pm)"
  shows "GetPort pm = Inr (pm, 0, Some ErrNoPortsAvailable)"
  using scanPorts_all_allocated [OF assms] by (simp add: GetPort_def)

lemma GetPort_exhausted_unchanged:
  "GetPort pm = Inr (pm', p, Some e) \<Longrightarrow> pm' = pm"
  unfolding GetPort_def by (rule scanPorts_exhausted_unchanged)

lemma ReleasePort_returns:
  assumes "portsCoverRange pm"
  shows "\<exists>pm'. ReleasePort pm port = Inr pm' \<and> portsCoverRange pm'"
proof (cases "minPort pm \<le> port \<and> port \<le> maxPort pm")
  case True
  then have idx: "wrap64 (port - minPort pm) = port - minPort pm"
    using assms by (simp add: portsCoverRange_def wrap64_id)
  have "\<not> (port - minPort pm < 0 \<or> int (length (ports pm)) \<le> port - minPort pm)"
    using True assms by (simp add: portsCoverRange_def)
  then have "ReleasePort pm port =
      Inr (pm\<lparr>ports := (ports pm)[nat (port - minPort pm) := False]\<rparr>)"
    using True idx by (simp add: ReleasePort_def Let_def)
  then show ?thesis
    using assms by (simp add: portsCoverRange_def)
next
  case False
  then have "ReleasePort pm port = Inr pm"
    by (auto simp: ReleasePort_def)
  then show ?thesis using assms by simp
qed

text \<open>
  With the largest \<open>int\<close> as its upper bound, a manager whose ports are all allocated
  does not report the exhaustion: the increment of the loop wraps around and the next
  index is outside the slice.
\<close>

lemma GetPort_largest_port_panics:
  "GetPort \<lparr>minPort = 2 ^ 63 - 1, maxPort = 2 ^ 63 - 1, ports = [True]\<rparr> = Inl IndexOutOfRange"
  by (simp add: GetPort_def wrap64_def)

section \<open>The begin handler\<close>

text \<open>What \<open>createChannel\<close> leaves behind when the port manager has no free port.\<close>

lemma createChannel_exhausted:
  assumes "GetPort (portManager s) = Inr (pm, p, Some e)"
  shows "createChannel eng s channelID nowT0 nowStart = Inr (s, Some (FailedToGetRTPPort e))"
  using assms GetPort_exhausted_unchanged [OF assms]
  by (simp add: createChannel_def)

lemma createChannel_mediaRefused:
  "createChannel mediaRefusingEngine exampleService ''ch'' 0 0 =
     Inr (exampleService
            \<lparr>effects := [Request CreateBridge,
                         Request (CreateExternalMedia ''ari-app'' ''127.0.0.1'' 21000
                                    ''external-media-ch'')]\<rparr>,
          Some (FailedToCreateExternalMedia ''ARI API error: 500 - ''))"
  by (simp add: createChannel_def exampleService_def exampleConfig_def examplePorts_def
        GetPort_def wrap64_def Atoi_def digitOf_def request_def releaseAndFail_def ReleasePort_def)

lemma createChannel_attachRefused:
  "createChannel attachRefusingEngine exampleService ''ch'' 0 0 =
     Inr (exampleService
            \<lparr>effects := [Request CreateBridge,
                         Request (CreateExternalMedia ''ari-app'' ''127.0.0.1'' 21000
                                    ''external-media-ch''),
                         Request (AddChannelToBridge ''bridge-1'' ''ch''),
                         Request (AddChannelToBridge ''bridge-1'' ''external-media-ch'')]\<rparr>,
          Some (FailedToAddExternalMediaToBridge ''ARI API error: 500 - ''))"
  by (simp add: createChannel_def exampleService_def exampleConfig_def examplePorts_def
        GetPort_def wrap64_def Atoi_def digitOf_def request_def releaseAndFail_def ReleasePort_def)

text \<open>
  Whatever the engine answers, \<open>createChannel\<close> sends it no request that tears a
  resource down.
\<close>

lemma createChannel_sends_no_teardown:
  assumes "createChannel eng s channelID nowT0 nowStart = Inr (s', r)"
  shows "\<exists>added. effects s' = effects s @ added \<and> list_all (\<lambda>e. \<not> isTeardown e) added"
proof -
  have fail: "\<And>sk p e. releaseAndFail sk p e = Inr (s', r) \<Longrightarrow> effects s' = effects sk"
    by (auto simp: releaseAndFail_def split: sum.splits)
  show ?thesis
    using assms
    by (auto simp: createChannel_def Let_def request_def
             split: sum.splits prod.splits option.splits Reply.splits dest!: fail)
qed

text \<open>
  C2. The handler releases the port and surfaces the error, and tears nothing down. The
  engine creates the bridge \<open>bridge-1\<close> and then refuses to create the external media
  channel: \<open>createChannel\<close> returns its error with port \<open>21000\<close> released; of the
  engine it has asked the two creations and nothing else, so the bridge it created is
  not deleted. And when the engine refuses the last step, the adding of the external
  media channel to the bridge, the four requests of the steps are all that the engine
  has been asked: the bridge is not deleted, and the external media channel is not hung
  up.
\<close>

theorem createChannel_leaves_bridge_behind:
  "createChannel mediaRefusingEngine exampleService ''ch'' 0 0 =
     Inr (exampleService
            \<lparr>effects := [Request CreateBridge,
                         Request (CreateExternalMedia ''ari-app'' ''127.0.0.1'' 21000
                                    ''external-media-ch'')]\<rparr>,
          Some (FailedToCreateExternalMedia ''ARI API error: 500 - '')) \<and>
   createChannel attachRefusingEngine exampleService ''ch'' 0 0 =
     Inr (exampleService
            \<lparr>effects := [Request CreateBridge,
                         Request (CreateExternalMedia ''ari-app'' ''127.0.0.1'' 21000
                                    ''external-media-ch''),
                         Request (AddChannelToBridge ''bridge-1'' ''ch''),
                         Request (AddChannelToBridge ''bridge-1'' ''external-media-ch'')]\<rparr>,
          Some (FailedToAddExternalMediaToBridge ''ARI API error: 500 - '')) \<and>
   filter isTeardown
     [Request CreateBridge,
      Request (CreateExternalMedia ''ari-app'' ''127.0.0.1'' 21000 ''external-media-ch''),
      Request (AddChannelToBridge ''bridge-1'' ''ch''),
      Request (AddChannelToBridge ''bridge-1'' ''external-media-ch'')] = []"
  using createChannel_mediaRefused createChannel_attachRefused by simp

lemma answerLoop_appends_answers:
  "\<exists>k\<le>n. (0 < n \<longrightarrow> 1 \<le> k) \<and>
          fst (answerLoop eng s channelID mx n lastErr) =
            s\<lparr>effects := effects s @ replicate k (Request (AnswerChannel channelID))\<rparr>"
proof (induction n arbitrary: s lastErr)
  case 0
  have "fst (answerLoop eng s channelID mx 0 lastErr) =
          s\<lparr>effects := effects s @ replicate 0 (Request (AnswerChannel channelID))\<rparr>"
    by simp
  then show ?case by blast
next
  case (Suc n)
  let ?s1 = "s\<lparr>effects := effects s @ [Request (AnswerChannel channelID)]\<rparr>"
  have once: ?case
    if "fst (answerLoop eng s channelID mx (Suc n) lastErr) =
          s\<lparr>effects := effects s @ replicate 1 (Request (AnswerChannel channelID))\<rparr>"
  proof -
    have "(1::nat) \<le> Suc n \<and> (0 < Suc n \<longrightarrow> (1::nat) \<le> 1)" by simp
    then show ?thesis using that by blast
  qed
  show ?case
  proof (cases "eng (effects s) (AnswerChannel channelID)")
    case (Success v)
    then have "fst (answerLoop eng s channelID mx (Suc n) lastErr) =
        s\<lparr>effects := effects s @ replicate 1 (Request (AnswerChannel channelID))\<rparr>"
      by (simp add: request_def)
    then show ?thesis by (rule once)
  next
    case (Failure err)
    show ?thesis
    proof (cases "Contains err ''Channel not found''")
      case False
      then have "fst (answerLoop eng s channelID mx (Suc n) lastErr) =
          s\<lparr>effects := effects s @ replicate 1 (Request (AnswerChannel channelID))\<rparr>"
        using Failure by (simp add: request_def)
      then show ?thesis by (rule once)
    next
      case True
      obtain k where k: "k \<le> n"
        "fst (answerLoop eng ?s1 channelID mx n (Some err)) =
           ?s1\<lparr>effects := effects ?s1 @ replicate k (Request (AnswerChannel channelID))\<rparr>"
        using Suc.IH [of ?s1 "Some err"] by blast
      have "fst (answerLoop eng s channelID mx (Suc n) lastErr) =
          s\<lparr>effects := effects s @ replicate (Suc k) (Request (AnswerChannel channelID))\<rparr>"
        using Failure True k(2) by (simp add: request_def)
      moreover have "Suc k \<le> Suc n \<and> (0 < Suc n \<longrightarrow> 1 \<le> Suc k)" using k(1) by simp
      ultimately show ?thesis by blast
    qed
  qed
qed

text \<open>
  C5, as the claim states it, fails. Four begin events arrive at a service with three
  ports, and the engine accepts every request. After them the active map holds the first
  three channels and none for the fourth; the last thing the service has done is to
  answer the fourth call; and it has sent the engine no hang-up, nor any other teardown
  request: the fourth call is not hung up.
\<close>

theorem fourth_call_is_not_hung_up:
  "activeIDs (processWebSocketMessages acceptingEngine exampleService fourBegins) =
     Some [''ch1'', ''ch2'', ''ch3''] \<and>
   lastEffect (processWebSocketMessages acceptingEngine exampleService fourBegins) =
     Some (Request (AnswerChannel ''ch4'')) \<and>
   teardownsSent (processWebSocketMessages acceptingEngine exampleService fourBegins) = Some []"
  by (simp add: fourBegins_def activeIDs_def lastEffect_def teardownsSent_def
        handleWebSocketMessage_def handleStasisStart_def answerChannelWithRetry_def
        createChannel_def exampleService_def exampleConfig_def examplePorts_def GetPort_def
        wrap64_def Atoi_def digitOf_def request_def releaseAndFail_def ReleasePort_def Store_def
        MarkChannelStarted_def NewMetrics_def eval_nat_numeral)

text \<open>
  C5, amended: when the port manager has no free port, the begin handler returns
  normally, and the service is as it was before the event except for the one to three
  answer requests it has sent for the channel: no record of the channel is added to
  the active map, no port is taken, and no hang-up request is sent.
\<close>

theorem handleStasisStart_exhausted_adds_nothing:
  assumes "GetPort (portManager s) = Inr (pm, p, Some ErrNoPortsAvailable)"
  shows "\<exists>k. 1 \<le> k \<and> k \<le> 3 \<and>
           handleStasisStart eng s (Some (Some channelID)) nowT0 nowStart =
             Inr (s\<lparr>effects := effects s @ replicate k (Request (AnswerChannel channelID))\<rparr>)"
proof -
  obtain s1 r where run: "answerChannelWithRetry eng s channelID 3 = (s1, r)"
    by (cases "answerChannelWithRetry eng s channelID 3")
  obtain k where k: "1 \<le> k" "k \<le> 3"
    "s1 = s\<lparr>effects := effects s @ replicate k (Request (AnswerChannel channelID))\<rparr>"
    using answerLoop_appends_answers [of 3 eng s channelID 3 None] run
    by (auto simp: answerChannelWithRetry_def)
  have "GetPort (portManager s1) = Inr (pm, p, Some ErrNoPortsAvailable)"
    using assms k(3) by simp
  then have "createChannel eng s1 channelID nowT0 nowStart =
               Inr (s1, Some (FailedToGetRTPPort ErrNoPortsAvailable))"
    by (rule createChannel_exhausted)
  then have "handleStasisStart eng s (Some (Some channelID)) nowT0 nowStart = Inr s1"
    using run by (cases r) (simp_all add: handleStasisStart_def)
  then show ?thesis using k by blast
qed

theorem handleStasisStart_exhausted_adds_nothing_witness:
  "GetPort (portManager exhaustedService) =
     Inr (portManager exhaustedService, 0, Some ErrNoPortsAvailable) \<and>
   (\<exists>k. 1 \<le> k \<and> k \<le> 3 \<and>
      handleStasisStart acceptingEngine exhaustedService (Some (Some ''ch4'')) 40 41 =
        Inr (exhaustedService
               \<lparr>effects := effects exhaustedService @
                             replicate k (Request (AnswerChannel ''ch4''))\<rparr>)) \<and>
   handleStasisStart acceptingEngine exhaustedService (Some (Some ''ch4'')) 40 41 =
     Inr (exhaustedService\<lparr>effects := [Request (AnswerChannel ''ch4'')]\<rparr>)"
proof -
  have full: "GetPort (portManager exhaustedService) =
      Inr (portManager exhaustedService, 0, Some ErrNoPortsAvailable)"
    by (simp add: exhaustedService_def GetPort_def wrap64_def)
  have answered: "handleStasisStart acceptingEngine exhaustedService (Some (Some ''ch4'')) 40 41 =
      Inr (exhaustedService\<lparr>effects := [Request (AnswerChannel ''ch4'')]\<rparr>)"
    by (simp add: handleStasisStart_def answerChannelWithRetry_def createChannel_def
          exhaustedService_def GetPort_def wrap64_def request_def eval_nat_numeral)
  show ?thesis
    using handleStasisStart_exhausted_adds_nothing [OF full, of acceptingEngine "''ch4''" 40 41]
      full answered
    by simp
qed

section \<open>Cleanup under concurrent handlers and scrubbers\<close>

lemma cleanupRuns_effects:
  "cleanupRuns c (s\<lparr>effects := effects s @ added\<rparr>) =
     cleanupRuns c s + length (filter (stopsWorkerOf c) added)"
  by (simp add: cleanupRuns_def)



lemma records_present:
  assumes "distinct (map fst cm)" and "map_of cm c = Some h"
  shows "length (filter (\<lambda>kv. fst kv = c) cm) = 1"
  using assms
proof (induction cm)
  case Nil
  then show ?case by simp
next
  case (Cons kv cm)
  show ?case
  proof (cases "fst kv = c")
    case True
    then have "c \<notin> fst ` set cm" using Cons.prems(1) by auto
    then have "filter (\<lambda>kv. fst kv = c) cm = []"
      by (auto simp: filter_empty_conv)
    then show ?thesis using True by simp
  next
    case False
    then have "map_of cm c = Some h" using Cons.prems(2) by (cases kv) auto
    then show ?thesis using Cons.IH Cons.prems(1) False by simp
  qed
qed

lemma records_absent:
  assumes "map_of cm c = None"
  shows "filter (\<lambda>kv. fst kv = c) cm = []"
  using assms by (auto simp: filter_empty_conv map_of_eq_None_iff)

lemma records_after_delete:
  "filter (\<lambda>kv. fst kv = c) (filter (\<lambda>kv. fst kv \<noteq> c') cm) =
     (if c' = c then [] else filter (\<lambda>kv. fst kv = c) cm)"
  by (induction cm) auto


text \<open>The cleanup of a handler whose worker is not stopped returns normally.\<close>

lemma cleanup_runs:
  assumes "\<not> stopChanClosed (worker h)" and "portsCoverRange (portManager s)"
  shows "\<exists>s'. cleanup eng s h = Inr s' \<and> channels s' = channels s \<and>
           portsCoverRange (portManager s') \<and>
           cleanupRuns c s' = cleanupRuns c s + (if workerChannelID (worker h) = c then 1 else 0)"
proof -
  have stop: "Stop (worker h) = Inr ((worker h)\<lparr>stopChanClosed := True\<rparr>)"
    using assms(1) by (simp add: Stop_def)
  obtain pm where rel: "ReleasePort (portManager s) (handlerRtpPort h) = Inr pm"
    and cover: "portsCoverRange pm"
    using ReleasePort_returns [OF assms(2)] by blast
  show ?thesis
    using stop rel cover
    by (simp add: cleanup_def Let_def request_def cleanupRuns_def)
qed

text \<open>
  What \<open>Store\<close> does to the keys and to the entries of the other keys.
\<close>

lemma keys_Store:
  "map fst (Store m k v) = (if map_of m k = None then map fst m @ [k] else map fst m)"
  by (simp add: Store_def keys_storeEntry)

lemma distinct_Store:
  "distinct (map fst m) \<Longrightarrow> distinct (map fst (Store m k v))"
  by (auto simp: keys_Store map_of_eq_None_iff)

lemma list_all_Store:
  "list_all P m \<Longrightarrow> P (k, v) \<Longrightarrow> list_all P (Store m k v)"
  by (simp add: Store_def list_all_storeEntry)

lemma filter_storeEntry_other:
  "k \<noteq> c \<Longrightarrow> filter (\<lambda>kv. fst kv = c) (storeEntry m k v) = filter (\<lambda>kv. fst kv = c) m"
  by (induction m) auto

lemma records_Store_other:
  "k \<noteq> c \<Longrightarrow> filter (\<lambda>kv. fst kv = c) (Store m k v) = filter (\<lambda>kv. fst kv = c) m"
  by (simp add: Store_def filter_storeEntry_other)

text \<open>
  In a sound service the begin handler returns normally and leaves the service sound.
  It runs no cleanup, and it leaves the records of the other channels as they are.
\<close>

lemma createChannel_keeps:
  assumes "soundService s"
  shows "\<exists>s' r. createChannel eng s d nowT0 nowStart = Inr (s', r) \<and> soundService s' \<and>
           cleanupRuns c s' = cleanupRuns c s \<and> (d \<noteq> c \<longrightarrow> records c s' = records c s)"
proof -
  have cover: "portsCoverRange (portManager s)"
    using assms by (simp add: soundService_def)
  obtain pm p e where got: "GetPort (portManager s) = Inr (pm, p, e)" and pm: "portsCoverRange pm"
    using GetPort_returns [OF cover] by blast
  obtain pm' where rel: "ReleasePort pm p = Inr pm'" and pm': "portsCoverRange pm'"
    using ReleasePort_returns [OF pm] by blast
  have fail: "\<And>sk err. portManager sk = pm \<Longrightarrow>
      releaseAndFail sk p err = Inr (sk\<lparr>portManager := pm'\<rparr>, Some err)"
    using rel by (simp add: releaseAndFail_def)
  show ?thesis
  proof (cases e)
    case (Some portErr)
    then show ?thesis
      using got pm assms
      by (simp add: createChannel_def soundService_def cleanupRuns_def records_def)
  next
    case None
    show ?thesis
      using got None assms pm pm'
      by (auto simp: createChannel_def Let_def request_def fail soundService_def cleanupRuns_def
            records_def distinct_Store list_all_Store soundRecord_def NewWorker_def
            records_Store_other MarkChannelStarted_def
          split: option.splits Reply.splits)
  qed
qed

lemma handleStasisStart_keeps:
  assumes "soundService s"
  shows "\<exists>s'. handleStasisStart eng s channel nowT0 nowStart = Inr s' \<and> soundService s' \<and>
           cleanupRuns c s' = cleanupRuns c s \<and>
           (channel \<noteq> Some (Some c) \<longrightarrow> records c s' = records c s)"
proof (cases channel)
  case None
  then show ?thesis using assms by (simp add: handleStasisStart_def)
next
  case (Some chan)
  show ?thesis
  proof (cases chan)
    case None
    then show ?thesis using assms Some by (simp add: handleStasisStart_def)
  next
    case (Some d)
    obtain s1 r1 where ans: "answerChannelWithRetry eng s d 3 = (s1, r1)"
      by (cases "answerChannelWithRetry eng s d 3")
    obtain k where "s1 = s\<lparr>effects := effects s @ replicate k (Request (AnswerChannel d))\<rparr>"
      using answerLoop_appends_answers [of 3 eng s d 3 None] ans
      by (auto simp: answerChannelWithRetry_def)
    then have s1: "soundService s1" "cleanupRuns c s1 = cleanupRuns c s" "records c s1 = records c s"
      using assms by (simp_all add: soundService_def cleanupRuns_def records_def)
    obtain s2 r2 where cr: "createChannel eng s1 d nowT0 nowStart = Inr (s2, r2)"
      "soundService s2" "cleanupRuns c s2 = cleanupRuns c s1"
      "d \<noteq> c \<longrightarrow> records c s2 = records c s1"
      using createChannel_keeps [OF s1(1), of eng d nowT0 nowStart c] by blast
    show ?thesis
      using ans s1 cr \<open>channel = Some chan\<close> Some
      by (cases r1) (auto simp: handleStasisStart_def)
  qed
qed

text \<open>
  A step of a task in a sound service returns normally and leaves the service sound and
  the task safe. The runs of the channel's cleanup, the handler that the task holds and
  the record in the map count the same in all before and after. No step adds a
  record of the channel; and a task that asks for the cleanup of the channel goes on
  asking for it until the record is out of the map.
\<close>

lemma taskStep_keeps:
  assumes sound: "soundService s" and safe: "safeFor c task"
    and gone: "gone \<Longrightarrow> reportsGone eng c"
  shows "\<exists>s' task'. taskStep eng s task = Inr (s', task') \<and> soundService s' \<and>
           safeFor c task' \<and>
           cleanupRuns c s' + (if holds c task' then 1 else 0) + records c s' =
             cleanupRuns c s + (if holds c task then 1 else 0) + records c s \<and>
           records c s' \<le> records c s \<and>
           (asksFor gone c task \<longrightarrow> asksFor gone c task' \<or> records c s' = 0)"
proof (cases task)
  case (EndHandler channel)
  show ?thesis
  proof (cases channel)
    case None
    then show ?thesis using EndHandler sound by simp
  next
    case (Some chan)
    then show ?thesis using EndHandler sound by (cases chan) simp_all
  qed
next
  case (BeginHandler channel nowT0 nowStart)
  then have other: "channel \<noteq> Some (Some c)" using safe by simp
  obtain s' where "handleStasisStart eng s channel nowT0 nowStart = Inr s'" "soundService s'"
    "cleanupRuns c s' = cleanupRuns c s" "records c s' = records c s"
    using handleStasisStart_keeps [OF sound, of eng channel nowT0 nowStart c] other by blast
  then show ?thesis using BeginHandler by simp
next
  case (Scrubber keys)
  show ?thesis
  proof (cases keys)
    case Nil
    then show ?thesis using Scrubber sound by simp
  next
    case (Cons k rest)
    let ?s1 = "s\<lparr>effects := effects s @ [Request (GetChannel k)]\<rparr>"
    have s1: "soundService ?s1" "cleanupRuns c ?s1 = cleanupRuns c s" "records c ?s1 = records c s"
      using sound by (simp_all add: soundService_def cleanupRuns_def records_def)
    have found: "case eng (effects s) (GetChannel k) of
                   Failure errStr \<Rightarrow> isNotFound errStr | Success v \<Rightarrow> False"
      if "gone" "k = c"
      using gone [OF that(1)] that(2) by (simp add: reportsGone_def)
    show ?thesis
    proof (cases "eng (effects s) (GetChannel k)")
      case (Success v)
      then have "taskStep eng s task = Inr (?s1, Scrubber rest)"
        using Scrubber Cons by (simp add: request_def)
      moreover have "asksFor gone c task \<longrightarrow> asksFor gone c (Scrubber rest)"
        using Scrubber Cons found Success by auto
      ultimately show ?thesis using s1 Scrubber by simp
    next
      case (Failure errStr)
      show ?thesis
      proof (cases "isNotFound errStr")
        case True
        then have "taskStep eng s task = Inr (?s1, Pending k rest)"
          using Scrubber Cons Failure by (simp add: request_def)
        moreover have "asksFor gone c task \<longrightarrow> asksFor gone c (Pending k rest)"
          using Scrubber Cons by auto
        ultimately show ?thesis using s1 Scrubber by simp
      next
        case False
        then have "taskStep eng s task = Inr (?s1, Scrubber rest)"
          using Scrubber Cons Failure by (simp add: request_def)
        moreover have "asksFor gone c task \<longrightarrow> asksFor gone c (Scrubber rest)"
          using Scrubber Cons found Failure False by auto
        ultimately show ?thesis using s1 Scrubber by simp
      qed
    qed
  qed
next
  case (Pending d rest)
  have dist: "distinct (map fst (channels s))" and recs: "list_all soundRecord (channels s)"
    and cover: "portsCoverRange (portManager s)"
    using sound by (simp_all add: soundService_def)
  show ?thesis
  proof (cases "map_of (channels s) d")
    case None
    then have "taskStep eng s task = Inr (s, Scrubber rest)"
      using Pending by (simp add: LoadAndDelete_def)
    moreover have "d = c \<Longrightarrow> records c s = 0"
      using records_absent [OF None] by (simp add: records_def)
    then have "asksFor gone c task \<longrightarrow> asksFor gone c (Scrubber rest) \<or> records c s = 0"
      using Pending by auto
    ultimately show ?thesis using sound Pending by simp
  next
    case (Some h)
    let ?m = "filter (\<lambda>kv. fst kv \<noteq> d) (channels s)"
    have step: "taskStep eng s task = Inr (s\<lparr>channels := ?m\<rparr>, Holding h rest)"
      using Pending Some by (simp add: LoadAndDelete_def)
    have "(d, h) \<in> set (channels s)" using Some by (rule map_of_SomeD)
    then have "soundRecord (d, h)" using recs by (auto simp: list_all_iff)
    then have wc: "workerChannelID (worker h) = d" and running: "\<not> stopChanClosed (worker h)"
      by (simp_all add: soundRecord_def)
    have s': "soundService (s\<lparr>channels := ?m\<rparr>)"
      using dist recs cover by (simp add: soundService_def distinct_map_filter list_all_iff)
    have before: "d = c \<Longrightarrow> records c s = 1"
      using records_present [OF dist Some] by (simp add: records_def)
    have after: "records c (s\<lparr>channels := ?m\<rparr>) = (if d = c then 0 else records c s)"
      by (simp add: records_def records_after_delete del: filter_filter)
    have runs: "cleanupRuns c (s\<lparr>channels := ?m\<rparr>) = cleanupRuns c s"
      by (simp add: cleanupRuns_def)
    have asks: "asksFor gone c task \<longrightarrow>
                  asksFor gone c (Holding h rest) \<or> records c (s\<lparr>channels := ?m\<rparr>) = 0"
      using Pending after by auto
    show ?thesis
      using step s' running wc before after runs asks Pending
      by (cases "d = c") simp_all
  qed
next
  case (Holding h rest)
  have cover: "portsCoverRange (portManager s)" using sound by (simp add: soundService_def)
  have running: "\<not> stopChanClosed (worker h)" using safe Holding by simp
  obtain s' where s': "cleanup eng s h = Inr s'" "channels s' = channels s"
    "portsCoverRange (portManager s')"
    "cleanupRuns c s' = cleanupRuns c s + (if workerChannelID (worker h) = c then 1 else 0)"
    using cleanup_runs [OF running cover, of eng c] by blast
  have "soundService s'" using sound s'(2,3) by (simp add: soundService_def)
  moreover have "records c s' = records c s" using s'(2) by (simp add: records_def)
  ultimately show ?thesis using s'(1,4) Holding by simp
next
  case Finished
  then show ?thesis using sound by simp
qed














text \<open>
  From a sound service, the event loop and the scrubber return normally and leave the
  service sound, whatever the events and the answers of the engine: the services that
  they reach from a new one are all sound.
\<close>

lemma cleanupChannel_keeps:
  assumes "soundService s"
  shows "\<exists>s'. cleanupChannel eng s channelID = Inr s' \<and> soundService s'"
proof -
  obtain s1 t1 where one: "taskStep eng s (Pending channelID []) = Inr (s1, t1)"
    and s1: "soundService s1" "safeFor channelID t1"
    using taskStep_keeps [OF assms, of channelID "Pending channelID []" False eng] by auto
  obtain s2 t2 where two: "taskStep eng s1 t1 = Inr (s2, t2)" and s2: "soundService s2"
    using taskStep_keeps [OF s1, of False eng] by auto
  show ?thesis
    using one two s1 s2
    by (auto simp: cleanupChannel_def LoadAndDelete_def split: option.splits sum.splits)
qed

lemma scrub_keeps:
  assumes "soundService s"
  shows "\<exists>s'. scrub eng keys s = Inr s' \<and> soundService s'"
  using assms
proof (induction keys arbitrary: s)
  case Nil
  then show ?case by simp
next
  case (Cons k rest)
  let ?s1 = "s\<lparr>effects := effects s @ [Request (GetChannel k)]\<rparr>"
  have s1: "soundService ?s1" using Cons.prems by (simp add: soundService_def)
  obtain s2 where s2: "cleanupChannel eng ?s1 k = Inr s2" "soundService s2"
    using cleanupChannel_keeps [OF s1] by blast
  show ?case
    using Cons.IH [OF s1] Cons.IH [OF s2(2)] s2(1)
    by (auto simp: request_def split: Reply.splits)
qed

lemma events_keep_sound:
  assumes "soundService s"
  shows "\<exists>s'. processWebSocketMessages eng s events = Inr s' \<and> soundService s'"
  using assms
proof (induction events arbitrary: s)
  case Nil
  then show ?case by simp
next
  case (Cons item events)
  obtain event nowT0 nowStart where item: "item = (event, nowT0, nowStart)"
    by (cases item)
  have "\<exists>s1. handleWebSocketMessage eng s event nowT0 nowStart = Inr s1 \<and> soundService s1"
  proof (cases event)
    case (StasisStart channel)
    then show ?thesis
      using handleStasisStart_keeps [OF Cons.prems, of eng channel nowT0 nowStart "[]"]
      by (auto simp: handleWebSocketMessage_def)
  next
    case (StasisEnd channel)
    then show ?thesis
      using cleanupChannel_keeps [OF Cons.prems] Cons.prems
      by (auto simp: handleWebSocketMessage_def handleStasisEnd_def split: option.splits)
  next
    case OtherEvent
    then show ?thesis using Cons.prems by (simp add: handleWebSocketMessage_def)
  qed
  then obtain s1 where "handleWebSocketMessage eng s event nowT0 nowStart = Inr s1"
    "soundService s1" by blast
  then show ?case using Cons.IH [of s1] item by simp
qed

lemma exampleService_sound: "soundService exampleService"
  by (simp add: soundService_def exampleService_def examplePorts_def portsCoverRange_def)





end
